theory Spec2Isabelle
  imports Main "HOL-Library.AList"
begin

section \<open>Values of the language\<close>

text \<open>
  The values the functions of \<^verbatim>\<open>validate-open-rpc-document.ts\<close> and
  \<^verbatim>\<open>parse-open-rpc-document.ts\<close> compute with are JSON values, together with
  \<^verbatim>\<open>undefined\<close> (the result of reading a member that is not there, and the value of
  an omitted argument). A number is kept as the text the engine prints for it: the code
  only ever turns a number into a property key or into a piece of a message. An object
  is the list of its own properties; a key occurs once in an object that was parsed from
  JSON text, and the operations below read the first occurrence and remove all of them.
\<close>

datatype json =
    JUndefined
  | JNull
  | JBool bool
  | JNum string
  | JStr string
  | JArr "json list"
  | JObj "(string \<times> json) list"

text \<open>
  \<^verbatim>\<open>OpenRPCDocumentValidationError implements Error\<close>: an object with the two public
  fields \<^verbatim>\<open>name\<close> and \<^verbatim>\<open>message\<close>.
\<close>

record OpenRPCDocumentValidationError =
  name :: string
  message :: string

text \<open>
  What a function can throw (or a promise reject with).
  \<^item> \<open>TypeError\<close>: the engine's own runtime type error (reading a member of
    \<^verbatim>\<open>undefined\<close> or \<^verbatim>\<open>null\<close>, calling what is not a function, a value that cannot
    be converted to a string). Its message differs between engines and is not modelled.
  \<^item> \<open>Error m\<close>: \<^verbatim>\<open>new Error(m)\<close>; also the errors of the collaborators.
  \<^item> \<open>ThrownValidationError e\<close>: an \<^verbatim>\<open>OpenRPCDocumentValidationError\<close> that is thrown.
  \<^item> \<open>DereferencingError m\<close>: an \<^verbatim>\<open>OpenRPCDocumentDereferencingError\<close> with message \<open>m\<close>.
  \<^item> \<open>SyntaxError\<close>: what \<^verbatim>\<open>JSON.parse\<close> throws on a text that is not JSON.
  \<^item> \<open>Unsupported\<close>: the code went where this embedding does not follow it (a member
    looked up by a computed key in a string, number, boolean or array, whose inherited
    members depend on the version of the engine's library; an assignment that changes an
    object's prototype or adds a named property to an array).
\<close>

datatype thrown =
    TypeError
  | Error string
  | ThrownValidationError OpenRPCDocumentValidationError
  | DereferencingError string
  | SyntaxError
  | Unsupported

fun andThen :: "'e + 'a \<Rightarrow> ('a \<Rightarrow> 'e + 'b) \<Rightarrow> 'e + 'b" where
  "andThen (Inl e) f = Inl e"
| "andThen (Inr a) f = f a"

subsection \<open>Conversion to a string\<close>

text \<open>
  \<^verbatim>\<open>ToString\<close>, which a template literal and a computed member access apply to a value.
  An array joins the strings of its elements with commas, \<^verbatim>\<open>undefined\<close> and \<^verbatim>\<open>null\<close>
  elements giving the empty string. An object gives \<^verbatim>\<open>[object Object]\<close> through the
  \<^verbatim>\<open>toString\<close> it inherits; an object with an own \<^verbatim>\<open>toString\<close> property (a JSON value,
  so not a function) has no conversion: the inherited \<^verbatim>\<open>valueOf\<close> returns the object
  itself and an own \<^verbatim>\<open>valueOf\<close> is no function either, so the engine raises a
  \<^verbatim>\<open>TypeError\<close>.
\<close>

fun ToString :: "json \<Rightarrow> thrown + string"
  and join_comma :: "json list \<Rightarrow> thrown + string" where
  "ToString JUndefined = Inr ''undefined''"
| "ToString JNull = Inr ''null''"
| "ToString (JBool b) = Inr (if b then ''true'' else ''false'')"
| "ToString (JNum s) = Inr s"
| "ToString (JStr s) = Inr s"
| "ToString (JArr xs) = join_comma xs"
| "ToString (JObj kvs) =
     (if ''toString'' \<in> set (map fst kvs) then Inl TypeError else Inr ''[object Object]'')"
| "join_comma [] = Inr []"
| "join_comma (x # xs) =
     andThen (if x = JUndefined \<or> x = JNull then Inr [] else ToString x) (\<lambda>s.
       case xs of
         [] \<Rightarrow> Inr s
       | _ \<Rightarrow> andThen (join_comma xs) (\<lambda>t. Inr (s @ '','' @ t)))"

subsection \<open>Reading, writing and deleting members\<close>

text \<open>
  \<^verbatim>\<open>v.k\<close> and \<^verbatim>\<open>v['k']\<close> for the keys the code writes out: \<^verbatim>\<open>x-extensions\<close>,
  \<^verbatim>\<open>name\<close>, \<^verbatim>\<open>schema\<close>, \<^verbatim>\<open>restricted\<close>, \<^verbatim>\<open>required\<close>, \<^verbatim>\<open>properties\<close>,
  \<^verbatim>\<open>definitions\<close>, \<^verbatim>\<open>JSONSchema\<close>. None of them is a member that objects, arrays,
  strings, numbers or booleans inherit, so the read gives the own property of an object
  and \<^verbatim>\<open>undefined\<close> everywhere else; on \<^verbatim>\<open>undefined\<close> and \<^verbatim>\<open>null\<close> it throws.
\<close>

fun get :: "json \<Rightarrow> string \<Rightarrow> thrown + json" where
  "get JUndefined k = Inl TypeError"
| "get JNull k = Inl TypeError"
| "get (JObj kvs) k = Inr (case map_of kvs k of Some v \<Rightarrow> v | None \<Rightarrow> JUndefined)"
| "get v k = Inr JUndefined"

text \<open>
  The members every object inherits from \<^verbatim>\<open>Object.prototype\<close>. Each is a function,
  but \<^verbatim>\<open>__proto__\<close>, whose value is \<^verbatim>\<open>Object.prototype\<close> itself; none of these
  values has a member \<^verbatim>\<open>required\<close> or \<^verbatim>\<open>properties\<close>.
\<close>

definition Object_prototype_keys :: "string list" where
  "Object_prototype_keys =
     [''constructor'', ''__defineGetter__'', ''__defineSetter__'', ''hasOwnProperty'',
      ''__lookupGetter__'', ''__lookupSetter__'', ''isPrototypeOf'',
      ''propertyIsEnumerable'', ''toString'', ''valueOf'', ''__proto__'',
      ''toLocaleString'']"

text \<open>
  The result of \<^verbatim>\<open>obj[key]\<close> for a computed key that \<open>ToString\<close> has made the
  string \<open>k\<close>: an own property or \<^verbatim>\<open>undefined\<close> (\<open>Value\<close>), or one of the inherited
  members above (\<open>Builtin\<close>).
\<close>

datatype member = Value json | Builtin

fun computed_member :: "json \<Rightarrow> string \<Rightarrow> thrown + member" where
  "computed_member JUndefined k = Inl TypeError"
| "computed_member JNull k = Inl TypeError"
| "computed_member (JObj kvs) k =
     (case map_of kvs k of
        Some v \<Rightarrow> Inr (Value v)
      | None \<Rightarrow> Inr (if k \<in> set Object_prototype_keys then Builtin else Value JUndefined))"
| "computed_member v k = Inl Unsupported"

text \<open>
  The functions mutate objects in place. The meta-schema is a tree (it is read from a
  JSON file), so a mutation of a nested object is the replacement of that object in its
  parent: \<open>set_own parent k child\<close>.
\<close>

fun set_own :: "json \<Rightarrow> string \<Rightarrow> json \<Rightarrow> json" where
  "set_own (JObj kvs) k x = JObj (AList.update k x kvs)"
| "set_own v k x = v"

text \<open>
  \<^verbatim>\<open>delete v.k\<close> in strict mode code (a module), for a key that is an ordinary own
  property or no property at all: the value \<open>v\<close> after the statement.
\<close>

fun js_delete :: "json \<Rightarrow> string \<Rightarrow> thrown + json" where
  "js_delete JUndefined k = Inl TypeError"
| "js_delete JNull k = Inl TypeError"
| "js_delete (JObj kvs) k = Inr (JObj (AList.delete k kvs))"
| "js_delete v k = Inr v"

text \<open>
  \<^verbatim>\<open>target[key] = x\<close> with a computed key, in strict mode code: the value of
  \<open>target\<close> after the assignment. On an object, the key \<^verbatim>\<open>__proto__\<close> that is not an
  own property is the inherited setter, which changes the prototype.
\<close>

fun computed_assign :: "json \<Rightarrow> json \<Rightarrow> json \<Rightarrow> thrown + json" where
  "computed_assign JUndefined key x = Inl TypeError"
| "computed_assign JNull key x = Inl TypeError"
| "computed_assign (JObj kvs) key x =
     andThen (ToString key) (\<lambda>k.
       if k = ''__proto__'' \<and> map_of kvs k = None then Inl Unsupported
       else Inr (JObj (AList.update k x kvs)))"
| "computed_assign (JArr xs) key x = andThen (ToString key) (\<lambda>k. Inl Unsupported)"
| "computed_assign v key x = Inl TypeError"

text \<open>\<^verbatim>\<open>r.push(x)\<close>: only an array has a function \<^verbatim>\<open>push\<close>.\<close>

fun push :: "json \<Rightarrow> json \<Rightarrow> thrown + json" where
  "push (JArr xs) x = Inr (JArr (xs @ [x]))"
| "push r x = Inl TypeError"

text \<open>
  \<^verbatim>\<open>a.forEach(callback)\<close>, with the state the callback mutates passed along: only an
  array has a function \<^verbatim>\<open>forEach\<close>; an exception of the callback ends the loop.
\<close>

fun forEach_list :: "json list \<Rightarrow> ('s \<Rightarrow> json \<Rightarrow> thrown + 's) \<Rightarrow> 's \<Rightarrow> thrown + 's" where
  "forEach_list [] f s = Inr s"
| "forEach_list (x # xs) f s = andThen (f s x) (forEach_list xs f)"

fun forEach :: "json \<Rightarrow> ('s \<Rightarrow> json \<Rightarrow> thrown + 's) \<Rightarrow> 's \<Rightarrow> thrown + 's" where
  "forEach (JArr xs) f s = forEach_list xs f s"
| "forEach v f s = Inl TypeError"

section \<open>The collaborators\<close>

text \<open>
  What the two files import and call but do not define, as parameters.
  \<^item> \<open>getMetaSchemaWithExtensionSchema\<close>: the meta-schema that the function of this name
    (module \<^verbatim>\<open>./get-meta-schema-with-extension\<close>) returns to the caller.
  \<^item> \<open>ajv_validate\<close>: \<^verbatim>\<open>ajv.validate(schema, data)\<close> on a new \<^verbatim>\<open>Ajv\<close>, by the list of
    violations it leaves in \<^verbatim>\<open>ajv.errors\<close>: the engine sets \<^verbatim>\<open>ajv.errors\<close> to
    \<^verbatim>\<open>null\<close> when it found no violation (the empty list here) and to the array of the
    violations otherwise. It throws on a schema it cannot compile.
  \<^item> \<open>JSON_stringify\<close>: \<^verbatim>\<open>JSON.stringify(v, undefined, "  ")\<close>.
  \<^item> \<open>JSON_parse\<close>: \<^verbatim>\<open>JSON.parse\<close>, \<open>None\<close> when it throws.
  \<^item> \<open>isUrl\<close>, \<open>pathExists\<close>, \<open>fetchUrlSchemaFile\<close>, \<open>readSchemaFromFile\<close>: the
    packages \<^verbatim>\<open>is-url\<close> and \<^verbatim>\<open>fs-extra\<close> and the module \<^verbatim>\<open>./get-open-rpc-document\<close>.
  \<^item> \<open>dereference\<close>: \<^verbatim>\<open>refParser.dereference\<close>; \<open>Inl m\<close> is the rejection with an
    \<^verbatim>\<open>Error\<close> whose message is \<open>m\<close>.
\<close>

record env =
  getMetaSchemaWithExtensionSchema :: json
  ajv_validate :: "json \<Rightarrow> json \<Rightarrow> thrown + json list"
  JSON_stringify :: "json \<Rightarrow> string"
  JSON_parse :: "string \<Rightarrow> json option"
  isUrl :: "string \<Rightarrow> bool"
  pathExists :: "string \<Rightarrow> thrown + bool"
  fetchUrlSchemaFile :: "string \<Rightarrow> thrown + json"
  readSchemaFromFile :: "string \<Rightarrow> thrown + json"
  dereference :: "json \<Rightarrow> string + json"

text \<open>The calls of the collaborators that do work outside the program, in the order made.\<close>

datatype call =
    Call_ajv_validate json json
  | Call_fetchUrlSchemaFile string
  | Call_pathExists string
  | Call_readSchemaFromFile string
  | Call_dereference json

section \<open>validate-open-rpc-document.ts\<close>

subsection \<open>OpenRPCDocumentValidationError\<close>

definition join :: "string \<Rightarrow> string list \<Rightarrow> string" where
  "join sep xs = (case xs of [] \<Rightarrow> [] | y # ys \<Rightarrow> y @ concat (map (\<lambda>z. sep @ z) ys))"

text \<open>The constructor of the class, with the initialiser of the field \<^verbatim>\<open>name\<close>.\<close>

definition new_OpenRPCDocumentValidationError :: "env \<Rightarrow> json list \<Rightarrow> OpenRPCDocumentValidationError" where
  "new_OpenRPCDocumentValidationError E errors =
     \<lparr> name = ''OpenRPCDocumentDereferencingError'',
       message = join [CHR 0x0A]
         [''Error validating OpenRPC Document against @open-rpc/meta-schema.'',
          ''The errors found are as follows:'',
          JSON_stringify E (JArr errors)] \<rparr>"

subsection \<open>applyExtensionsToMetaSchema\<close>

text \<open>
  The statement \<^verbatim>\<open>defs[metaSchemaKey]?.required.push(propKey)\<close>, with the key already
  a string: \<open>defs\<close> after it. The optional chain ends the statement when
  \<^verbatim>\<open>defs[metaSchemaKey]\<close> is \<^verbatim>\<open>undefined\<close> or \<^verbatim>\<open>null\<close>.
\<close>

definition required_push :: "json \<Rightarrow> string \<Rightarrow> json \<Rightarrow> thrown + json" where
  "required_push defs k propKey =
     andThen (computed_member defs k) (\<lambda>m.
       case m of
         Builtin \<Rightarrow> Inl TypeError
       | Value JUndefined \<Rightarrow> Inr defs
       | Value JNull \<Rightarrow> Inr defs
       | Value v \<Rightarrow>
           andThen (get v ''required'') (\<lambda>r.
           andThen (push r propKey) (\<lambda>r'.
             Inr (set_own defs k (set_own v ''required'' r')))))"

text \<open>The statement \<^verbatim>\<open>defs[metaSchemaKey].properties[propKey] = schema\<close>: \<open>defs\<close> after it.\<close>

definition properties_assign :: "json \<Rightarrow> string \<Rightarrow> json \<Rightarrow> json \<Rightarrow> thrown + json" where
  "properties_assign defs k propKey schema =
     andThen (computed_member defs k) (\<lambda>m.
       case m of
         Builtin \<Rightarrow> Inl TypeError
       | Value v \<Rightarrow>
           andThen (get v ''properties'') (\<lambda>props.
           andThen (computed_assign props propKey schema) (\<lambda>props'.
             Inr (set_own defs k (set_own v ''properties'' props')))))"

text \<open>
  The callback of \<^verbatim>\<open>extension['restricted'].forEach\<close>, for one \<open>metaSchemaKey\<close>:
  \<open>defs\<close> after it, or what it throws.
\<close>

definition restricted_callback :: "json \<Rightarrow> json \<Rightarrow> json \<Rightarrow> json \<Rightarrow> json \<Rightarrow> thrown + json" where
  "restricted_callback extension propKey schema defs metaSchemaKey =
     andThen (ToString metaSchemaKey) (\<lambda>k.
     andThen (computed_member defs k) (\<lambda>m.
       if m = Value JUndefined then
         andThen (ToString propKey) (\<lambda>p.
           Inl (Error (''Invalid meta schema key: '' @ k @ '' for openrpc extension '' @ p)))
       else
         andThen (get extension ''required'') (\<lambda>r.
         andThen (if r = JBool True then required_push defs k propKey else Inr defs) (\<lambda>defs1.
           properties_assign defs1 k propKey schema))))"

text \<open>The callback of \<^verbatim>\<open>document["x-extensions"].forEach\<close>, for one \<open>extension\<close>.\<close>

definition extension_callback :: "json \<Rightarrow> json \<Rightarrow> thrown + json" where
  "extension_callback defs extension =
     andThen (get extension ''name'') (\<lambda>propKey.
     andThen (get extension ''schema'') (\<lambda>schema.
     andThen (get extension ''restricted'') (\<lambda>restricted.
       forEach restricted (restricted_callback extension propKey schema) defs)))"

text \<open>
  \<open>defs\<close> is the object \<^verbatim>\<open>extendedMetaSchema.definitions\<close> itself, so what the callbacks
  did to it is in the schema the function returns.
\<close>

definition applyExtensionsToMetaSchema :: "env \<Rightarrow> json \<Rightarrow> thrown + json" where
  "applyExtensionsToMetaSchema E document =
     (let extendedMetaSchema = getMetaSchemaWithExtensionSchema E in
      andThen (get extendedMetaSchema ''definitions'') (\<lambda>defs.
      andThen (get document ''x-extensions'') (\<lambda>x.
        if x \<noteq> JUndefined then
          andThen (forEach x extension_callback defs) (\<lambda>defs'.
            Inr (case defs of
                   JObj d \<Rightarrow> set_own extendedMetaSchema ''definitions'' defs'
                 | _ \<Rightarrow> extendedMetaSchema))
        else Inr extendedMetaSchema)))"

subsection \<open>cleanMetaSchemaForValidation\<close>

text \<open>The statement \<^verbatim>\<open>delete metaSchema.definitions.JSONSchema.k\<close>: \<open>metaSchema\<close> after it.\<close>

definition delete_JSONSchema :: "string \<Rightarrow> json \<Rightarrow> thrown + json" where
  "delete_JSONSchema k metaSchema =
     andThen (get metaSchema ''definitions'') (\<lambda>d.
     andThen (get d ''JSONSchema'') (\<lambda>j.
     andThen (js_delete j k) (\<lambda>j'.
       Inr (set_own metaSchema ''definitions'' (set_own d ''JSONSchema'' j')))))"

definition cleanMetaSchemaForValidation :: "json \<Rightarrow> thrown + json" where
  "cleanMetaSchemaForValidation metaSchema =
     andThen (delete_JSONSchema ''$id'' metaSchema) (\<lambda>m1.
     andThen (delete_JSONSchema ''$schema'' m1) (\<lambda>m2.
     andThen (js_delete m2 ''$schema'') (\<lambda>m3.
       js_delete m3 ''$id'')))"

subsection \<open>validateOpenRPCDocument\<close>

datatype validation_result = IsTrue | IsError OpenRPCDocumentValidationError

text \<open>
  The result is the pair of the calls made and of what the function returns or throws.
  The four \<^verbatim>\<open>delete\<close> statements are those of \<open>cleanMetaSchemaForValidation\<close>,
  written out in the function as well.
\<close>

definition validateOpenRPCDocument :: "env \<Rightarrow> json \<Rightarrow> call list \<times> (thrown + validation_result)" where
  "validateOpenRPCDocument E document =
     (case andThen (applyExtensionsToMetaSchema E document) (\<lambda>m0.
           andThen (delete_JSONSchema ''$id'' m0) (\<lambda>m1.
           andThen (delete_JSONSchema ''$schema'' m1) (\<lambda>m2.
           andThen (js_delete m2 ''$schema'') (\<lambda>m3.
             js_delete m3 ''$id'')))) of
        Inl e \<Rightarrow> ([], Inl e)
      | Inr metaSchemaCopy \<Rightarrow>
          ([Call_ajv_validate metaSchemaCopy document],
           case ajv_validate E metaSchemaCopy document of
             Inl e \<Rightarrow> Inl e
           | Inr errors \<Rightarrow>
               if errors \<noteq> [] then Inr (IsError (new_OpenRPCDocumentValidationError E errors))
               else Inr IsTrue))"

section \<open>parse-open-rpc-document.ts\<close>

definition isJson :: "env \<Rightarrow> string \<Rightarrow> bool" where
  "isJson E jsonString = (case JSON_parse E jsonString of Some v \<Rightarrow> True | None \<Rightarrow> False)"

text \<open>The constructor of \<^verbatim>\<open>OpenRPCDocumentDereferencingError\<close>, from the message of \<open>e\<close>.\<close>

definition new_OpenRPCDocumentDereferencingError :: "string \<Rightarrow> thrown" where
  "new_OpenRPCDocumentDereferencingError e_message =
     DereferencingError
       (''The json schema provided cannot be dereferenced. Received Error: '' @ [CHR 0x0A] @ '' ''
        @ e_message)"

text \<open>
  The first statement of \<open>parseOpenRPCDocument\<close>, which finds the document: the calls
  made, and \<open>parsedSchema\<close> or the rejection of the collaborator.
\<close>

definition acquire :: "env \<Rightarrow> json \<Rightarrow> call list \<times> (thrown + json)" where
  "acquire E schema =
     (case schema of
        JStr s \<Rightarrow>
          if isJson E s then
            ([], case JSON_parse E s of Some v \<Rightarrow> Inr v | None \<Rightarrow> Inl SyntaxError)
          else if isUrl E s then ([Call_fetchUrlSchemaFile s], fetchUrlSchemaFile E s)
          else
            (case pathExists E s of
               Inl e \<Rightarrow> ([Call_pathExists s], Inl e)
             | Inr isCorrectPath \<Rightarrow>
                 ([Call_pathExists s, Call_readSchemaFromFile s], readSchemaFromFile E s))
      | _ \<Rightarrow> ([], Inr schema))"

text \<open>
  \<open>parseOpenRPCDocument\<close>: the calls made, and the value the promise resolves to or the
  rejection. The parameter has the default \<^verbatim>\<open>"./openrpc.json"\<close>, which the language
  takes when the argument is missing or \<^verbatim>\<open>undefined\<close>.
\<close>

definition parseOpenRPCDocument :: "env \<Rightarrow> json \<Rightarrow> call list \<times> (thrown + json)" where
  "parseOpenRPCDocument E arg =
     (let schema = (if arg = JUndefined then JStr ''./openrpc.json'' else arg) in
      case acquire E schema of
        (c1, Inl e) \<Rightarrow> (c1, Inl e)
      | (c1, Inr parsedSchema) \<Rightarrow>
          (case validateOpenRPCDocument E parsedSchema of
             (c2, Inl e) \<Rightarrow> (c1 @ c2, Inl e)
           | (c2, Inr IsTrue) \<Rightarrow>
               (c1 @ c2 @ [Call_dereference parsedSchema],
                case dereference E parsedSchema of
                  Inr resolved \<Rightarrow> Inr resolved
                | Inl m \<Rightarrow> Inl (new_OpenRPCDocumentDereferencingError m))
           | (c2, Inr (IsError isValid)) \<Rightarrow> (c1 @ c2, Inl (ThrownValidationError isValid))))"

section \<open>The functions on a store\<close>

text \<open>
  The functions above compute with values: an object is its contents. That is how
  \<open>applyExtensionsToMetaSchema\<close> behaves on a meta-schema that nothing else refers to,
  and it says nothing about which objects a call writes to. Here the same code runs on a
  store: an object or array lives at an address, a value is a primitive or the address of
  an object, and a statement that mutates an object replaces the contents at its
  address. The store holds whatever exists when a function is called: the document, the
  meta-schema of the module, the schemas of earlier calls.
\<close>

datatype hval =
    HUndefined
  | HNull
  | HBool bool
  | HNum string
  | HStr string
  | HRef nat

datatype hobj = HObject "(string \<times> hval) list" | HArray "hval list"

type_synonym heap = "hobj list"

type_synonym 'a outcome = "heap \<times> (thrown + 'a)"

text \<open>
  A computation takes the store and gives the store after it, with the value it returns or
  what it throws: a mutation made before an exception stays in the store.
\<close>

definition h_read :: "(heap \<Rightarrow> thrown + 'a) \<Rightarrow> heap \<Rightarrow> 'a outcome" where
  "h_read g h = (h, g h)"

definition h_bind :: "(heap \<Rightarrow> 'a outcome) \<Rightarrow> ('a \<Rightarrow> heap \<Rightarrow> 'b outcome) \<Rightarrow> heap \<Rightarrow> 'b outcome" where
  "h_bind m f h = (case m h of (h1, Inl e) \<Rightarrow> (h1, Inl e) | (h1, Inr a) \<Rightarrow> f a h1)"

definition h_throw :: "thrown \<Rightarrow> heap \<Rightarrow> 'a outcome" where
  "h_throw e h = (h, Inl e)"

definition h_done :: "heap \<Rightarrow> unit outcome" where
  "h_done h = (h, Inr ())"

text \<open>
  The operations of the first section, on the store. A dangling address has no meaning
  (\<open>Unsupported\<close>); the string of an array inside an array is not followed
  (\<open>Unsupported\<close>): the conversions only read.
\<close>

fun h_get :: "hval \<Rightarrow> string \<Rightarrow> heap \<Rightarrow> thrown + hval" where
  "h_get HUndefined k h = Inl TypeError"
| "h_get HNull k h = Inl TypeError"
| "h_get (HRef a) k h =
     (if a < length h
      then (case h ! a of
              HObject kvs \<Rightarrow> Inr (case map_of kvs k of Some v \<Rightarrow> v | None \<Rightarrow> HUndefined)
            | HArray xs \<Rightarrow> Inr HUndefined)
      else Inl Unsupported)"
| "h_get v k h = Inr HUndefined"

fun h_element_string :: "hval \<Rightarrow> heap \<Rightarrow> thrown + string" where
  "h_element_string HUndefined h = Inr []"
| "h_element_string HNull h = Inr []"
| "h_element_string (HBool b) h = Inr (if b then ''true'' else ''false'')"
| "h_element_string (HNum s) h = Inr s"
| "h_element_string (HStr s) h = Inr s"
| "h_element_string (HRef a) h =
     (if a < length h
      then (case h ! a of
              HObject kvs \<Rightarrow>
                if ''toString'' \<in> set (map fst kvs) then Inl TypeError else Inr ''[object Object]''
            | HArray xs \<Rightarrow> Inl Unsupported)
      else Inl Unsupported)"

fun h_join_comma :: "hval list \<Rightarrow> heap \<Rightarrow> thrown + string" where
  "h_join_comma [] h = Inr []"
| "h_join_comma (x # xs) h =
     andThen (h_element_string x h) (\<lambda>s.
       case xs of
         [] \<Rightarrow> Inr s
       | _ \<Rightarrow> andThen (h_join_comma xs h) (\<lambda>t. Inr (s @ '','' @ t)))"

fun h_ToString :: "hval \<Rightarrow> heap \<Rightarrow> thrown + string" where
  "h_ToString HUndefined h = Inr ''undefined''"
| "h_ToString HNull h = Inr ''null''"
| "h_ToString (HRef a) h =
     (if a < length h
      then (case h ! a of
              HObject kvs \<Rightarrow>
                if ''toString'' \<in> set (map fst kvs) then Inl TypeError else Inr ''[object Object]''
            | HArray xs \<Rightarrow> h_join_comma xs h)
      else Inl Unsupported)"
| "h_ToString v h = h_element_string v h"

datatype hmember = HValue hval | HBuiltin

fun h_computed_member :: "hval \<Rightarrow> string \<Rightarrow> heap \<Rightarrow> thrown + hmember" where
  "h_computed_member HUndefined k h = Inl TypeError"
| "h_computed_member HNull k h = Inl TypeError"
| "h_computed_member (HRef a) k h =
     (if a < length h
      then (case h ! a of
              HObject kvs \<Rightarrow>
                (case map_of kvs k of
                   Some v \<Rightarrow> Inr (HValue v)
                 | None \<Rightarrow> Inr (if k \<in> set Object_prototype_keys then HBuiltin else HValue HUndefined))
            | HArray xs \<Rightarrow> Inl Unsupported)
      else Inl Unsupported)"
| "h_computed_member v k h = Inl Unsupported"

fun h_push :: "hval \<Rightarrow> hval \<Rightarrow> heap \<Rightarrow> unit outcome" where
  "h_push (HRef a) x h =
     (if a < length h
      then (case h ! a of
              HArray xs \<Rightarrow> (h[a := HArray (xs @ [x])], Inr ())
            | HObject kvs \<Rightarrow> (h, Inl TypeError))
      else (h, Inl Unsupported))"
| "h_push r x h = (h, Inl TypeError)"

fun h_computed_assign :: "hval \<Rightarrow> hval \<Rightarrow> hval \<Rightarrow> heap \<Rightarrow> unit outcome" where
  "h_computed_assign HUndefined key x h = (h, Inl TypeError)"
| "h_computed_assign HNull key x h = (h, Inl TypeError)"
| "h_computed_assign (HRef a) key x h =
     (if a < length h
      then (case h_ToString key h of
              Inl e \<Rightarrow> (h, Inl e)
            | Inr k \<Rightarrow>
                (case h ! a of
                   HObject kvs \<Rightarrow>
                     if k = ''__proto__'' \<and> map_of kvs k = None then (h, Inl Unsupported)
                     else (h[a := HObject (AList.update k x kvs)], Inr ())
                 | HArray xs \<Rightarrow> (h, Inl Unsupported)))
      else (h, Inl Unsupported))"
| "h_computed_assign v key x h = (h, Inl TypeError)"

fun h_delete :: "hval \<Rightarrow> string \<Rightarrow> heap \<Rightarrow> unit outcome" where
  "h_delete HUndefined k h = (h, Inl TypeError)"
| "h_delete HNull k h = (h, Inl TypeError)"
| "h_delete (HRef a) k h =
     (if a < length h
      then (case h ! a of
              HObject kvs \<Rightarrow> (h[a := HObject (AList.delete k kvs)], Inr ())
            | HArray xs \<Rightarrow> (h, Inr ()))
      else (h, Inl Unsupported))"
| "h_delete v k h = (h, Inr ())"

fun h_forEach_list :: "hval list \<Rightarrow> (hval \<Rightarrow> heap \<Rightarrow> unit outcome) \<Rightarrow> heap \<Rightarrow> unit outcome" where
  "h_forEach_list [] f h = (h, Inr ())"
| "h_forEach_list (x # xs) f h = h_bind (f x) (\<lambda>u. h_forEach_list xs f) h"

fun h_forEach :: "hval \<Rightarrow> (hval \<Rightarrow> heap \<Rightarrow> unit outcome) \<Rightarrow> heap \<Rightarrow> unit outcome" where
  "h_forEach (HRef a) f h =
     (if a < length h
      then (case h ! a of
              HArray xs \<Rightarrow> h_forEach_list xs f h
            | HObject kvs \<Rightarrow> (h, Inl TypeError))
      else (h, Inl Unsupported))"
| "h_forEach v f h = (h, Inl TypeError)"

text \<open>
  Modelled from the spec: the function \<^verbatim>\<open>getMetaSchemaWithExtensionSchema\<close> of the module
  \<^verbatim>\<open>./get-meta-schema-with-extension\<close>, which is not among the sources. The
  specification has "a working copy (the base meta-schema augmented with extensions) is
  produced fresh for each validation" and "always build a fresh deep copy before
  injection": the function allocates a copy of the base meta-schema, every object and
  array of it at a new address (the members first, then the object that holds them), and
  returns the address of the copy.
\<close>

fun fresh_copy :: "json \<Rightarrow> heap \<Rightarrow> hval \<times> heap"
  and fresh_copy_list :: "json list \<Rightarrow> heap \<Rightarrow> hval list \<times> heap"
  and fresh_copy_fields :: "(string \<times> json) list \<Rightarrow> heap \<Rightarrow> (string \<times> hval) list \<times> heap" where
  "fresh_copy JUndefined h = (HUndefined, h)"
| "fresh_copy JNull h = (HNull, h)"
| "fresh_copy (JBool b) h = (HBool b, h)"
| "fresh_copy (JNum s) h = (HNum s, h)"
| "fresh_copy (JStr s) h = (HStr s, h)"
| "fresh_copy (JArr xs) h =
     (case fresh_copy_list xs h of (vs, h1) \<Rightarrow> (HRef (length h1), h1 @ [HArray vs]))"
| "fresh_copy (JObj kvs) h =
     (case fresh_copy_fields kvs h of (fs, h1) \<Rightarrow> (HRef (length h1), h1 @ [HObject fs]))"
| "fresh_copy_list [] h = ([], h)"
| "fresh_copy_list (x # xs) h =
     (case fresh_copy x h of (v, h1) \<Rightarrow>
        case fresh_copy_list xs h1 of (vs, h2) \<Rightarrow> (v # vs, h2))"
| "fresh_copy_fields [] h = ([], h)"
| "fresh_copy_fields (kx # kvs) h =
     (case fresh_copy (snd kx) h of (v, h1) \<Rightarrow>
        case fresh_copy_fields kvs h1 of (fs, h2) \<Rightarrow> ((fst kx, v) # fs, h2))"

definition h_getMetaSchemaWithExtensionSchema :: "env \<Rightarrow> heap \<Rightarrow> hval outcome" where
  "h_getMetaSchemaWithExtensionSchema E h =
     (case fresh_copy (getMetaSchemaWithExtensionSchema E) h of (root, h1) \<Rightarrow> (h1, Inr root))"

text \<open>
  \<open>applyExtensionsToMetaSchema\<close>, \<open>cleanMetaSchemaForValidation\<close>'s four statements and
  \<open>validateOpenRPCDocument\<close>, statement by statement as above. \<open>defs\<close> is the value of
  \<^verbatim>\<open>extendedMetaSchema.definitions\<close>, read once. \<^verbatim>\<open>forEach\<close> visits the elements the array
  has when the loop starts (the code only ever appends to an array). The engine reads the
  store and returns its violations; \<open>h_validateOpenRPCDocument\<close> returns, with its result,
  the schema it gave to the engine.
\<close>

definition h_required_push :: "hval \<Rightarrow> string \<Rightarrow> hval \<Rightarrow> heap \<Rightarrow> unit outcome" where
  "h_required_push defs k propKey =
     h_bind (h_read (h_computed_member defs k)) (\<lambda>m.
       case m of
         HBuiltin \<Rightarrow> h_throw TypeError
       | HValue HUndefined \<Rightarrow> h_done
       | HValue HNull \<Rightarrow> h_done
       | HValue v \<Rightarrow> h_bind (h_read (h_get v ''required'')) (\<lambda>r. h_push r propKey))"

definition h_properties_assign :: "hval \<Rightarrow> string \<Rightarrow> hval \<Rightarrow> hval \<Rightarrow> heap \<Rightarrow> unit outcome" where
  "h_properties_assign defs k propKey schema =
     h_bind (h_read (h_computed_member defs k)) (\<lambda>m.
       case m of
         HBuiltin \<Rightarrow> h_throw TypeError
       | HValue v \<Rightarrow>
           h_bind (h_read (h_get v ''properties'')) (\<lambda>props.
             h_computed_assign props propKey schema))"

definition h_restricted_callback :: "hval \<Rightarrow> hval \<Rightarrow> hval \<Rightarrow> hval \<Rightarrow> hval \<Rightarrow> heap \<Rightarrow> unit outcome" where
  "h_restricted_callback extension propKey schema defs metaSchemaKey =
     h_bind (h_read (h_ToString metaSchemaKey)) (\<lambda>k.
     h_bind (h_read (h_computed_member defs k)) (\<lambda>m.
       if m = HValue HUndefined then
         h_bind (h_read (h_ToString propKey)) (\<lambda>p.
           h_throw (Error (''Invalid meta schema key: '' @ k @ '' for openrpc extension '' @ p)))
       else
         h_bind (h_read (h_get extension ''required'')) (\<lambda>r.
         h_bind (if r = HBool True then h_required_push defs k propKey else h_done) (\<lambda>u.
           h_properties_assign defs k propKey schema))))"

definition h_extension_callback :: "hval \<Rightarrow> hval \<Rightarrow> heap \<Rightarrow> unit outcome" where
  "h_extension_callback defs extension =
     h_bind (h_read (h_get extension ''name'')) (\<lambda>propKey.
     h_bind (h_read (h_get extension ''schema'')) (\<lambda>schema.
     h_bind (h_read (h_get extension ''restricted'')) (\<lambda>restricted.
       h_forEach restricted (h_restricted_callback extension propKey schema defs))))"

definition h_applyExtensionsToMetaSchema :: "env \<Rightarrow> hval \<Rightarrow> heap \<Rightarrow> hval outcome" where
  "h_applyExtensionsToMetaSchema E document =
     h_bind (h_getMetaSchemaWithExtensionSchema E) (\<lambda>extendedMetaSchema.
     h_bind (h_read (h_get extendedMetaSchema ''definitions'')) (\<lambda>defs.
     h_bind (h_read (h_get document ''x-extensions'')) (\<lambda>x.
       if x \<noteq> HUndefined then
         h_bind (h_forEach x (h_extension_callback defs)) (\<lambda>u. h_read (\<lambda>h. Inr extendedMetaSchema))
       else h_read (\<lambda>h. Inr extendedMetaSchema))))"

definition h_delete_JSONSchema :: "string \<Rightarrow> hval \<Rightarrow> heap \<Rightarrow> unit outcome" where
  "h_delete_JSONSchema k metaSchema =
     h_bind (h_read (h_get metaSchema ''definitions'')) (\<lambda>d.
     h_bind (h_read (h_get d ''JSONSchema'')) (\<lambda>j. h_delete j k))"

definition h_validateOpenRPCDocument ::
  "env \<Rightarrow> (heap \<Rightarrow> hval \<Rightarrow> hval \<Rightarrow> thrown + json list) \<Rightarrow> hval \<Rightarrow> heap \<Rightarrow> (hval \<times> validation_result) outcome" where
  "h_validateOpenRPCDocument E engine document =
     h_bind (h_applyExtensionsToMetaSchema E document) (\<lambda>metaSchemaCopy.
     h_bind (h_delete_JSONSchema ''$id'' metaSchemaCopy) (\<lambda>u.
     h_bind (h_delete_JSONSchema ''$schema'' metaSchemaCopy) (\<lambda>u.
     h_bind (h_delete metaSchemaCopy ''$schema'') (\<lambda>u.
     h_bind (h_delete metaSchemaCopy ''$id'') (\<lambda>u.
     h_bind (h_read (\<lambda>h. engine h metaSchemaCopy document)) (\<lambda>errors.
       h_read (\<lambda>h. Inr (metaSchemaCopy,
         if errors \<noteq> [] then IsError (new_OpenRPCDocumentValidationError E errors)
         else IsTrue))))))))"

section \<open>Concrete inputs\<close>

text \<open>
  A small meta-schema of the shape of \<^verbatim>\<open>@open-rpc/meta-schema\<close>, and collaborators to
  run the functions with: an engine that reports one violation for a document without
  \<^verbatim>\<open>info\<close>, a dereferencer that fails on a document without \<^verbatim>\<open>methods\<close>.
\<close>

definition example_definitions :: "(string \<times> json) list" where
  "example_definitions =
     [(''MethodObject'', JObj
         [(''type'', JStr ''object''),
          (''properties'', JObj [(''name'', JObj [(''type'', JStr ''string'')])]),
          (''required'', JArr [JStr ''name''])]),
      (''tagObject'', JObj [(''type'', JStr ''object'')]),
      (''JSONSchema'', JObj
         [(''$schema'', JStr ''https://meta.json-schema.tools/''),
          (''$id'', JStr ''https://meta.json-schema.tools/''),
          (''title'', JStr ''JSONSchema'')])]"

definition example_metaSchema :: json where
  "example_metaSchema =
     JObj [(''$schema'', JStr ''https://meta.json-schema.tools/''),
           (''$id'', JStr ''https://meta.open-rpc.org/''),
           (''title'', JStr ''openrpcDocument''),
           (''definitions'', JObj example_definitions)]"

definition example_violation :: json where
  "example_violation =
     JObj [(''keyword'', JStr ''required''), (''dataPath'', JStr []),
           (''schemaPath'', JStr ''#/required''),
           (''message'', JStr ''should have required property info'')]"

definition example_env :: env where
  "example_env =
     \<lparr> getMetaSchemaWithExtensionSchema = example_metaSchema,
       ajv_validate = (\<lambda>schema data.
          if get data ''info'' = Inr JUndefined then Inr [example_violation] else Inr []),
       JSON_stringify = (\<lambda>v. ''[...]''),
       JSON_parse = (\<lambda>s. if s = ''{}'' then Some (JObj []) else None),
       isUrl = (\<lambda>s. take 7 s = ''http://''),
       pathExists = (\<lambda>s. Inr True),
       fetchUrlSchemaFile = (\<lambda>s. Inr (JObj [(''info'', JObj [])])),
       readSchemaFromFile = (\<lambda>s. Inr (JObj [(''info'', JObj [])])),
       dereference = (\<lambda>d. if get d ''methods'' = Inr JUndefined then Inl ''no methods'' else Inr d) \<rparr>"

definition example_document :: json where
  "example_document =
     JObj [(''openrpc'', JStr ''1.2.6''),
           (''info'', JObj [(''title'', JStr ''t''), (''version'', JStr ''1'')]),
           (''methods'', JArr [])]"

definition example_cleaned :: json where
  "example_cleaned =
     JObj [(''title'', JStr ''openrpcDocument''),
           (''definitions'', JObj
              [(''MethodObject'', JObj
                  [(''type'', JStr ''object''),
                   (''properties'', JObj [(''name'', JObj [(''type'', JStr ''string'')])]),
                   (''required'', JArr [JStr ''name''])]),
               (''tagObject'', JObj [(''type'', JStr ''object'')]),
               (''JSONSchema'', JObj [(''title'', JStr ''JSONSchema'')])])]"

text \<open>Extension declarations, and documents that carry them.\<close>

definition mk_extension :: "string \<Rightarrow> json \<Rightarrow> string \<Rightarrow> bool \<Rightarrow> json" where
  "mk_extension n fragment target req =
     JObj [(''name'', JStr n), (''schema'', fragment), (''restricted'', JArr [JStr target]),
           (''required'', JBool req)]"

definition document_with :: "json list \<Rightarrow> json" where
  "document_with extensions =
     JObj [(''openrpc'', JStr ''1.2.6''),
           (''info'', JObj [(''title'', JStr ''t''), (''version'', JStr ''1'')]),
           (''methods'', JArr []),
           (''x-extensions'', JArr extensions)]"

definition example_extension :: json where
  "example_extension = mk_extension ''x-foo'' (JObj [(''type'', JStr ''string'')]) ''MethodObject'' True"

definition later_extension :: json where
  "later_extension = mk_extension ''x-foo'' (JObj [(''type'', JStr ''number'')]) ''MethodObject'' False"

definition missing_extension :: json where
  "missing_extension = mk_extension ''x-b'' (JObj []) ''NoSuchDef'' True"

definition extended_metaSchema :: json where
  "extended_metaSchema =
     JObj [(''$schema'', JStr ''https://meta.json-schema.tools/''),
           (''$id'', JStr ''https://meta.open-rpc.org/''),
           (''title'', JStr ''openrpcDocument''),
           (''definitions'', JObj
              [(''MethodObject'', JObj
                  [(''type'', JStr ''object''),
                   (''properties'', JObj [(''name'', JObj [(''type'', JStr ''string'')]),
                                          (''x-foo'', JObj [(''type'', JStr ''string'')])]),
                   (''required'', JArr [JStr ''name'', JStr ''x-foo''])]),
               (''tagObject'', JObj [(''type'', JStr ''object'')]),
               (''JSONSchema'', JObj
                  [(''$schema'', JStr ''https://meta.json-schema.tools/''),
                   (''$id'', JStr ''https://meta.json-schema.tools/''),
                   (''title'', JStr ''JSONSchema'')])])]"

text \<open>
  A store with a document at address 4, whose one declaration (address 2) injects
  \<^verbatim>\<open>x-foo\<close> into \<^verbatim>\<open>MethodObject\<close>, and an engine that finds no violation.
\<close>

definition example_heap :: heap where
  "example_heap =
     [HObject [(''type'', HStr ''string'')],
      HArray [HStr ''MethodObject''],
      HObject [(''name'', HStr ''x-foo''), (''schema'', HRef 0), (''restricted'', HRef 1),
               (''required'', HBool True)],
      HArray [HRef 2],
      HObject [(''openrpc'', HStr ''1.2.6''), (''x-extensions'', HRef 3)]]"

definition example_engine :: "heap \<Rightarrow> hval \<Rightarrow> hval \<Rightarrow> thrown + json list" where
  "example_engine h schema data = Inr []"

section \<open>Notions of the proofs\<close>

text \<open>
  What the four \<^verbatim>\<open>delete\<close> statements leave of the nested definition \<open>j\<close>, and of a
  meta-schema with the members \<open>kvs\<close> whose definitions are \<open>dk\<close>.
\<close>

fun strip_identity :: "json \<Rightarrow> json" where
  "strip_identity (JObj jk) = JObj (AList.delete ''$schema'' (AList.delete ''$id'' jk))"
| "strip_identity j = j"

definition cleaned :: "(string \<times> json) list \<Rightarrow> (string \<times> json) list \<Rightarrow> json \<Rightarrow> json" where
  "cleaned kvs dk j =
     JObj (AList.delete ''$id'' (AList.delete ''$schema''
       (AList.update ''definitions'' (JObj (AList.update ''JSONSchema'' (strip_identity j) dk)) kvs)))"

text \<open>
  The value of the expression \<^verbatim>\<open>metaSchema.definitions.JSONSchema\<close>, and whether it is
  a value that \<^verbatim>\<open>delete\<close> accepts: neither \<^verbatim>\<open>undefined\<close> nor \<^verbatim>\<open>null\<close>.
\<close>

definition nested_JSONSchema :: "json \<Rightarrow> thrown + json" where
  "nested_JSONSchema metaSchema =
     andThen (get metaSchema ''definitions'') (\<lambda>d. get d ''JSONSchema'')"

definition has_JSONSchema :: "json \<Rightarrow> bool" where
  "has_JSONSchema metaSchema =
     (case nested_JSONSchema metaSchema of
        Inr j \<Rightarrow> j \<noteq> JUndefined \<and> j \<noteq> JNull
      | Inl e \<Rightarrow> False)"

text \<open>
  What a successful callback makes of the definition with the members \<open>f\<close> and the
  properties \<open>props\<close>: the key pushed on \<^verbatim>\<open>required\<close> when \<open>r\<close> is \<^verbatim>\<open>true\<close>, the
  schema stored under \<open>p\<close>.
\<close>

definition with_required :: "json \<Rightarrow> json \<Rightarrow> (string \<times> json) list \<Rightarrow> (string \<times> json) list" where
  "with_required r propKey f =
     (if r = JBool True
      then (case map_of f ''required'' of
              Some (JArr xs) \<Rightarrow> AList.update ''required'' (JArr (xs @ [propKey])) f
            | _ \<Rightarrow> f)
      else f)"

definition injected :: "json \<Rightarrow> json \<Rightarrow> string \<Rightarrow> json \<Rightarrow> (string \<times> json) list \<Rightarrow> (string \<times> json) list \<Rightarrow> json" where
  "injected r propKey p schema props f =
     JObj (AList.update ''properties'' (JObj (AList.update p schema props)) (with_required r propKey f))"

text \<open>
  Reading the result: \<^verbatim>\<open>defs[m].required\<close> as a list (empty when it is no array) and
  \<^verbatim>\<open>defs[m].properties[q]\<close>, in the definitions \<open>defs\<close> and in a whole meta-schema \<open>S\<close>.
\<close>

definition required_list :: "json \<Rightarrow> string \<Rightarrow> json list" where
  "required_list defs m =
     (case andThen (get defs m) (\<lambda>v. get v ''required'') of
        Inr (JArr xs) \<Rightarrow> xs
      | _ \<Rightarrow> [])"

definition property_at :: "json \<Rightarrow> string \<Rightarrow> string \<Rightarrow> thrown + json" where
  "property_at defs m q =
     andThen (get defs m) (\<lambda>v. andThen (get v ''properties'') (\<lambda>props. get props q))"

definition schema_required :: "json \<Rightarrow> string \<Rightarrow> json list" where
  "schema_required S m = (case get S ''definitions'' of Inr defs \<Rightarrow> required_list defs m | Inl e \<Rightarrow> [])"

definition schema_property :: "json \<Rightarrow> string \<Rightarrow> string \<Rightarrow> thrown + json" where
  "schema_property S m q = andThen (get S ''definitions'') (\<lambda>defs. property_at defs m q)"

definition injected_property :: "env \<Rightarrow> json \<Rightarrow> string \<Rightarrow> string \<Rightarrow> thrown + json" where
  "injected_property E document m q =
     andThen (applyExtensionsToMetaSchema E document) (\<lambda>S. schema_property S m q)"

text \<open>
  A declaration injects the property \<open>q\<close> into the definition \<open>m\<close> when its name is \<open>q\<close>
  as a string and one of its restricted entries is \<open>m\<close> as a string.
\<close>

definition injects_into :: "json \<Rightarrow> string \<Rightarrow> string \<Rightarrow> bool" where
  "injects_into D q m \<longleftrightarrow>
     (\<exists>n. get D ''name'' = Inr n \<and> ToString n = Inr q)
   \<and> (\<exists>rs K. get D ''restricted'' = Inr (JArr rs) \<and> K \<in> set rs \<and> ToString K = Inr m)"

text \<open>
  The states of the definition \<open>k\<close> in the definitions \<open>defs\<close> that the claims speak of:
  there is none; it is an object without an array \<^verbatim>\<open>required\<close>; it is an object without
  \<^verbatim>\<open>properties\<close>; it is an object with both.
\<close>

definition absent :: "string \<Rightarrow> json \<Rightarrow> bool" where
  "absent k defs \<longleftrightarrow> (\<exists>dk. defs = JObj dk \<and> map_of dk k = None)"

definition lacks_required :: "string \<Rightarrow> json \<Rightarrow> bool" where
  "lacks_required k defs \<longleftrightarrow>
     (\<exists>dk f. defs = JObj dk \<and> map_of dk k = Some (JObj f)
        \<and> (\<forall>xs. map_of f ''required'' \<noteq> Some (JArr xs)))"

definition lacks_properties :: "string \<Rightarrow> json \<Rightarrow> bool" where
  "lacks_properties k defs \<longleftrightarrow>
     (\<exists>dk f. defs = JObj dk \<and> map_of dk k = Some (JObj f) \<and> map_of f ''properties'' = None)"

definition accepts_extensions :: "string \<Rightarrow> json \<Rightarrow> bool" where
  "accepts_extensions k defs \<longleftrightarrow>
     (\<exists>dk f xs props. defs = JObj dk \<and> map_of dk k = Some (JObj f)
        \<and> map_of f ''required'' = Some (JArr xs) \<and> map_of f ''properties'' = Some (JObj props))"

text \<open>
  The JSON value that a value of the store stands for: \<open>represents h v j\<close>.
\<close>

fun represents :: "heap \<Rightarrow> hval \<Rightarrow> json \<Rightarrow> bool"
  and represents_list :: "heap \<Rightarrow> hval list \<Rightarrow> json list \<Rightarrow> bool"
  and represents_fields :: "heap \<Rightarrow> (string \<times> hval) list \<Rightarrow> (string \<times> json) list \<Rightarrow> bool" where
  "represents h v JUndefined \<longleftrightarrow> v = HUndefined"
| "represents h v JNull \<longleftrightarrow> v = HNull"
| "represents h v (JBool b) \<longleftrightarrow> v = HBool b"
| "represents h v (JNum s) \<longleftrightarrow> v = HNum s"
| "represents h v (JStr s) \<longleftrightarrow> v = HStr s"
| "represents h v (JArr xs) \<longleftrightarrow>
     (case v of
        HRef a \<Rightarrow> a < length h \<and> (case h ! a of HArray vs \<Rightarrow> represents_list h vs xs | _ \<Rightarrow> False)
      | _ \<Rightarrow> False)"
| "represents h v (JObj kvs) \<longleftrightarrow>
     (case v of
        HRef a \<Rightarrow> a < length h \<and> (case h ! a of HObject fs \<Rightarrow> represents_fields h fs kvs | _ \<Rightarrow> False)
      | _ \<Rightarrow> False)"
| "represents_list h vs [] \<longleftrightarrow> vs = []"
| "represents_list h vs (x # xs) \<longleftrightarrow>
     (case vs of [] \<Rightarrow> False | v # vs' \<Rightarrow> represents h v x \<and> represents_list h vs' xs)"
| "represents_fields h fs [] \<longleftrightarrow> fs = []"
| "represents_fields h fs (kx # kvs) \<longleftrightarrow>
     (case fs of [] \<Rightarrow> False
      | f # fs' \<Rightarrow> fst f = fst kx \<and> represents h (snd f) (snd kx) \<and> represents_fields h fs' kvs)"

text \<open>
  The addresses an object holds; the objects that a set of addresses leads to in one step;
  the first three levels below a root. A list of new objects is well nested when every
  object holds addresses of earlier new objects only and no two objects hold the same
  address; \<open>copied n A ext\<close> says so of \<open>ext\<close>, allocated from address \<open>n\<close> on, with
  the addresses \<open>A\<close> held by no object of \<open>ext\<close>. Two stores agree outside \<open>W\<close> when
  they have the same objects at all other addresses.
\<close>

fun refs_val :: "hval \<Rightarrow> nat set" where
  "refs_val (HRef a) = {a}"
| "refs_val v = {}"

fun refs_obj :: "hobj \<Rightarrow> nat set" where
  "refs_obj (HObject kvs) = (\<Union>kv \<in> set kvs. refs_val (snd kv))"
| "refs_obj (HArray xs) = (\<Union>x \<in> set xs. refs_val x)"

definition refs_at :: "heap \<Rightarrow> nat \<Rightarrow> nat set" where
  "refs_at h a = (if a < length h then refs_obj (h ! a) else {})"

definition next_level :: "heap \<Rightarrow> nat set \<Rightarrow> nat set" where
  "next_level h A = (\<Union>a \<in> A. refs_at h a)"

definition well_nested :: "nat \<Rightarrow> heap \<Rightarrow> bool" where
  "well_nested n ext \<longleftrightarrow>
     (\<forall>i < length ext. refs_obj (ext ! i) \<subseteq> {n ..< n + i})
   \<and> (\<forall>i < length ext. \<forall>j < length ext. i \<noteq> j \<longrightarrow> refs_obj (ext ! i) \<inter> refs_obj (ext ! j) = {})"

definition unreferenced :: "nat set \<Rightarrow> heap \<Rightarrow> bool" where
  "unreferenced A ext \<longleftrightarrow> (\<forall>i < length ext. refs_obj (ext ! i) \<inter> A = {})"

definition copied :: "nat \<Rightarrow> nat set \<Rightarrow> heap \<Rightarrow> bool" where
  "copied n A ext \<longleftrightarrow> well_nested n ext \<and> A \<subseteq> {n ..< n + length ext} \<and> unreferenced A ext"

definition level1 :: "heap \<Rightarrow> hval \<Rightarrow> nat set" where
  "level1 h root = next_level h (refs_val root)"

definition level2 :: "heap \<Rightarrow> hval \<Rightarrow> nat set" where
  "level2 h root = next_level h (level1 h root)"

definition level3 :: "heap \<Rightarrow> hval \<Rightarrow> nat set" where
  "level3 h root = next_level h (level2 h root)"

definition separated :: "nat \<Rightarrow> heap \<Rightarrow> hval \<Rightarrow> bool" where
  "separated n h root \<longleftrightarrow>
     refs_val root \<union> level1 h root \<union> level2 h root \<union> level3 h root \<subseteq> {n ..< length h}
   \<and> refs_val root \<inter> level2 h root = {} \<and> refs_val root \<inter> level3 h root = {}
   \<and> level1 h root \<inter> level2 h root = {} \<and> level1 h root \<inter> level3 h root = {}
   \<and> level2 h root \<inter> level3 h root = {}"

definition agree_outside :: "nat set \<Rightarrow> heap \<Rightarrow> heap \<Rightarrow> bool" where
  "agree_outside W h0 h \<longleftrightarrow> length h = length h0 \<and> (\<forall>a < length h0. a \<notin> W \<longrightarrow> h ! a = h0 ! a)"

section \<open>Properties\<close>

subsection \<open>The extension merger\<close>

lemma computed_member_Value:
  assumes "computed_member d k = Inr (Value v)" "v \<noteq> JUndefined"
  shows "\<exists>dk. d = JObj dk \<and> map_of dk k = Some v"
  using assms by (cases d) (auto split: option.splits if_splits)

lemma get_JObj_Inr:
  assumes "get v k = Inr (JObj x)"
  shows "\<exists>f. v = JObj f \<and> map_of f k = Some (JObj x)"
  using assms by (cases v) (auto split: option.splits)

lemma get_JArr_Inr:
  assumes "get v k = Inr (JArr x)"
  shows "\<exists>f. v = JObj f \<and> map_of f k = Some (JArr x)"
  using assms by (cases v) (auto split: option.splits)

lemma computed_assign_Inr:
  assumes "computed_assign t key x = Inr t'"
  shows "\<exists>props p. t = JObj props \<and> ToString key = Inr p \<and> t' = JObj (AList.update p x props)"
  using assms by (cases t; cases "ToString key") (auto split: if_splits)

lemma push_Inr:
  assumes "push r x = Inr r'"
  shows "\<exists>xs. r = JArr xs \<and> r' = JArr (xs @ [x])"
  using assms by (cases r) auto

lemma properties_assign_Inr:
  assumes "properties_assign d k propKey schema = Inr d'"
  shows "\<exists>dk f props p. d = JObj dk \<and> map_of dk k = Some (JObj f)
           \<and> map_of f ''properties'' = Some (JObj props) \<and> ToString propKey = Inr p
           \<and> d' = JObj (AList.update k (JObj (AList.update ''properties'' (JObj (AList.update p schema props)) f)) dk)"
proof -
  from assms obtain m where m: "computed_member d k = Inr m"
    by (cases "computed_member d k") (auto simp: properties_assign_def)
  from assms m obtain v where v: "m = Value v"
    by (cases m) (auto simp: properties_assign_def)
  from assms m v obtain pr where pr: "get v ''properties'' = Inr pr"
    by (cases "get v ''properties''") (auto simp: properties_assign_def)
  from assms m v pr obtain pr' where pr': "computed_assign pr propKey schema = Inr pr'"
    by (cases "computed_assign pr propKey schema") (auto simp: properties_assign_def)
  from computed_assign_Inr [OF pr'] obtain props p where
    p: "pr = JObj props" "ToString propKey = Inr p" "pr' = JObj (AList.update p schema props)"
    by blast
  from get_JObj_Inr pr p(1) obtain f where f: "v = JObj f" "map_of f ''properties'' = Some (JObj props)"
    by blast
  from computed_member_Value m v f(1) obtain dk where dk: "d = JObj dk" "map_of dk k = Some (JObj f)"
    by blast
  have "d' = set_own d k (set_own v ''properties'' pr')"
    using assms m v pr pr' by (simp add: properties_assign_def)
  then show ?thesis using dk f p by auto
qed

lemma properties_assign_JObj:
  assumes "map_of dk k = Some (JObj f)" "map_of f ''properties'' = Some (JObj props)"
    "ToString propKey = Inr p" "p = ''__proto__'' \<longrightarrow> map_of props p \<noteq> None"
  shows "properties_assign (JObj dk) k propKey schema =
     Inr (JObj (AList.update k (JObj (AList.update ''properties'' (JObj (AList.update p schema props)) f)) dk))"
  using assms by (auto simp: properties_assign_def)

lemma required_push_Inr:
  assumes "required_push d k propKey = Inr d'" "\<exists>dk f. d' = JObj dk \<and> map_of dk k = Some (JObj f)"
  shows "\<exists>dk f xs. d = JObj dk \<and> map_of dk k = Some (JObj f)
           \<and> map_of f ''required'' = Some (JArr xs)
           \<and> d' = JObj (AList.update k (JObj (AList.update ''required'' (JArr (xs @ [propKey])) f)) dk)"
proof -
  from assms obtain m where m: "computed_member d k = Inr m"
    by (cases "computed_member d k") (auto simp: required_push_def)
  from assms m obtain v where v: "m = Value v"
    by (cases m) (auto simp: required_push_def)
  show ?thesis
  proof (cases "v = JUndefined \<or> v = JNull")
    case True
    then have "d' = d" using assms m v by (auto simp: required_push_def)
    with assms(2) have "\<exists>dk f. d = JObj dk \<and> map_of dk k = Some (JObj f)" by simp
    moreover from m v True have "\<not> (\<exists>dk f. d = JObj dk \<and> map_of dk k = Some (JObj f))"
      by (cases d) (auto split: option.splits if_splits)
    ultimately show ?thesis by blast
  next
    case False
    then have e: "required_push d k propKey =
        andThen (get v ''required'') (\<lambda>r. andThen (push r propKey) (\<lambda>r'.
             Inr (set_own d k (set_own v ''required'' r'))))"
      using m v by (cases v) (simp_all add: required_push_def)
    from assms e obtain r where r: "get v ''required'' = Inr r"
      by (cases "get v ''required''") auto
    from assms e r obtain r' where r': "push r propKey = Inr r'"
      by (cases "push r propKey") auto
    from push_Inr [OF r'] obtain xs where xs: "r = JArr xs" "r' = JArr (xs @ [propKey])" by blast
    from get_JArr_Inr r xs(1) obtain f where f: "v = JObj f" "map_of f ''required'' = Some (JArr xs)"
      by blast
    from computed_member_Value m v f(1) obtain dk where dk: "d = JObj dk" "map_of dk k = Some (JObj f)"
      by blast
    have "d' = set_own d k (set_own v ''required'' r')" using assms e r r' by simp
    then show ?thesis using dk f xs by auto
  qed
qed

lemma restricted_callback_Inr:
  assumes "restricted_callback extension propKey schema defs metaSchemaKey = Inr defs'"
  shows "\<exists>k dk f props p r. ToString metaSchemaKey = Inr k \<and> defs = JObj dk
           \<and> map_of dk k = Some (JObj f) \<and> get extension ''required'' = Inr r
           \<and> (r = JBool True \<longrightarrow> (\<exists>xs. map_of f ''required'' = Some (JArr xs)))
           \<and> map_of f ''properties'' = Some (JObj props) \<and> ToString propKey = Inr p
           \<and> defs' = JObj (AList.update k (injected r propKey p schema props f) dk)"
proof -
  from assms obtain k where k: "ToString metaSchemaKey = Inr k"
    by (cases "ToString metaSchemaKey") (auto simp: restricted_callback_def)
  from assms k obtain m where m: "computed_member defs k = Inr m"
    by (cases "computed_member defs k") (auto simp: restricted_callback_def)
  have mu: "m \<noteq> Value JUndefined"
    using assms k m by (cases "ToString propKey") (auto simp: restricted_callback_def)
  from assms k m mu obtain r where r: "get extension ''required'' = Inr r"
    by (cases "get extension ''required''") (auto simp: restricted_callback_def)
  let ?d1 = "if r = JBool True then required_push defs k propKey else Inr defs"
  from assms k m mu r obtain defs1 where d1: "?d1 = Inr defs1"
    by (cases ?d1) (auto simp: restricted_callback_def)
  have pa: "properties_assign defs1 k propKey schema = Inr defs'"
    using assms k m mu r d1 by (simp add: restricted_callback_def)
  from properties_assign_Inr [OF pa] obtain dk1 f1 props p where
    *: "defs1 = JObj dk1" "map_of dk1 k = Some (JObj f1)"
       "map_of f1 ''properties'' = Some (JObj props)" "ToString propKey = Inr p"
       "defs' = JObj (AList.update k (JObj (AList.update ''properties'' (JObj (AList.update p schema props)) f1)) dk1)"
    by blast
  show ?thesis
  proof (cases "r = JBool True")
    case False
    then have "defs1 = defs" using d1 by simp
    then show ?thesis using k r * False by (auto simp: injected_def with_required_def)
  next
    case True
    then have rp: "required_push defs k propKey = Inr defs1" using d1 by simp
    from required_push_Inr [OF rp] *(1,2) obtain dk f xs where
      **: "defs = JObj dk" "map_of dk k = Some (JObj f)" "map_of f ''required'' = Some (JArr xs)"
          "defs1 = JObj (AList.update k (JObj (AList.update ''required'' (JArr (xs @ [propKey])) f)) dk)"
      by blast
    have "dk1 = AList.update k (JObj (AList.update ''required'' (JArr (xs @ [propKey])) f)) dk"
      using *(1) **(4) by simp
    then have "map_of dk1 k = Some (JObj (AList.update ''required'' (JArr (xs @ [propKey])) f))"
      by (simp add: AList.update_conv')
    then have f1: "f1 = AList.update ''required'' (JArr (xs @ [propKey])) f"
      using *(2) by simp
    have dk1: "dk1 = AList.update k (JObj f1) dk" using *(1) **(4) f1 by simp
    have pr: "map_of f ''properties'' = Some (JObj props)"
      using *(3) f1 by (simp add: AList.update_conv')
    show ?thesis using k r True ** pr *(4,5) f1 dk1
      by (auto simp: injected_def with_required_def)
  qed
qed

lemma forEach_list_append:
  "forEach_list (xs @ ys) f s = andThen (forEach_list xs f s) (forEach_list ys f)"
proof (induction xs arbitrary: s)
  case Nil
  show ?case by simp
next
  case (Cons x xs)
  show ?case by (cases "f s x") (simp_all add: Cons.IH)
qed

lemma forEach_list_preserves:
  assumes "forEach_list xs f s = Inr s'" "I s"
    and "\<And>a x b. x \<in> set xs \<Longrightarrow> I a \<Longrightarrow> f a x = Inr b \<Longrightarrow> I b"
  shows "I s'"
  using assms
proof (induction xs arbitrary: s)
  case Nil
  then show ?case by simp
next
  case (Cons x xs)
  from Cons.prems(1) obtain s1 where s1: "f s x = Inr s1" "forEach_list xs f s1 = Inr s'"
    by (cases "f s x") auto
  have "I s1" using Cons.prems(3) [of x s s1] Cons.prems(2) s1(1) by simp
  show ?case
  proof (rule Cons.IH [OF s1(2) \<open>I s1\<close>])
    fix a y b
    assume "y \<in> set xs" "I a" "f a y = Inr b"
    then show "I b" using Cons.prems(3) [of y a b] by simp
  qed
qed

lemma forEach_list_relates:
  assumes "forEach_list xs f s = Inr s'"
    and "\<And>a. R a a" and "\<And>a b c. R a b \<Longrightarrow> R b c \<Longrightarrow> R a c"
    and "\<And>a x b. x \<in> set xs \<Longrightarrow> f a x = Inr b \<Longrightarrow> R a b"
  shows "R s s'"
  using assms(1,4)
proof (induction xs arbitrary: s)
  case Nil
  then show ?case using assms(2) by simp
next
  case (Cons x xs)
  from Cons.prems(1) obtain s1 where s1: "f s x = Inr s1" "forEach_list xs f s1 = Inr s'"
    by (cases "f s x") auto
  have 1: "R s s1" using Cons.prems(2) [of x s s1] s1(1) by simp
  have 2: "R s1 s'"
  proof (rule Cons.IH [OF s1(2)])
    fix a y b
    assume "y \<in> set xs" "f a y = Inr b"
    then show "R a b" using Cons.prems(2) [of y a b] by simp
  qed
  from 1 2 show ?case by (rule assms(3))
qed

lemma extension_callback_Inr:
  assumes "extension_callback defs extension = Inr defs'"
  shows "\<exists>propKey schema rs. get extension ''name'' = Inr propKey
      \<and> get extension ''schema'' = Inr schema \<and> get extension ''restricted'' = Inr (JArr rs)
      \<and> forEach_list rs (restricted_callback extension propKey schema) defs = Inr defs'"
proof -
  from assms obtain propKey where 1: "get extension ''name'' = Inr propKey"
    by (cases "get extension ''name''") (auto simp: extension_callback_def)
  from assms 1 obtain schema where 2: "get extension ''schema'' = Inr schema"
    by (cases "get extension ''schema''") (auto simp: extension_callback_def)
  from assms 1 2 obtain r where 3: "get extension ''restricted'' = Inr r"
    by (cases "get extension ''restricted''") (auto simp: extension_callback_def)
  from assms 1 2 3 obtain rs where 4: "r = JArr rs"
    by (cases r) (auto simp: extension_callback_def)
  show ?thesis using assms 1 2 3 4 by (auto simp: extension_callback_def)
qed

text \<open>The effect of one successful callback, through the two views.\<close>

lemma injected_required:
  assumes "r = JBool True \<longrightarrow> (\<exists>xs. map_of f ''required'' = Some (JArr xs))"
  shows "(case get (injected r propKey p schema props f) ''required'' of Inr (JArr xs) \<Rightarrow> xs | _ \<Rightarrow> [])
       = (case get (JObj f) ''required'' of Inr (JArr xs) \<Rightarrow> xs | _ \<Rightarrow> [])
         @ (if r = JBool True then [propKey] else [])"
  using assms by (auto simp: injected_def with_required_def AList.update_conv' split: option.splits json.splits)

lemma injected_properties:
  "andThen (get (injected r propKey p schema props f) ''properties'') (\<lambda>props. get props q)
     = Inr (if q = p then schema else (case map_of props q of Some v \<Rightarrow> v | None \<Rightarrow> JUndefined))"
  by (simp add: injected_def AList.update_conv')

lemma callback_required_list:
  assumes "restricted_callback extension propKey schema defs metaSchemaKey = Inr defs'"
  shows "\<exists>k r. ToString metaSchemaKey = Inr k \<and> get extension ''required'' = Inr r
     \<and> required_list defs' m =
         required_list defs m @ (if m = k \<and> r = JBool True then [propKey] else [])"
proof -
  from restricted_callback_Inr [OF assms] obtain k dk f props p r where
    *: "ToString metaSchemaKey = Inr k" "defs = JObj dk" "map_of dk k = Some (JObj f)"
       "get extension ''required'' = Inr r"
       "r = JBool True \<longrightarrow> (\<exists>xs. map_of f ''required'' = Some (JArr xs))"
       "defs' = JObj (AList.update k (injected r propKey p schema props f) dk)"
    by blast
  have "required_list defs' m =
         required_list defs m @ (if m = k \<and> r = JBool True then [propKey] else [])"
  proof (cases "m = k")
    case True
    have "required_list defs' m =
        (case get (injected r propKey p schema props f) ''required'' of Inr (JArr xs) \<Rightarrow> xs | _ \<Rightarrow> [])"
      using True *(6) by (simp add: required_list_def AList.update_conv')
    moreover have "required_list defs m = (case get (JObj f) ''required'' of Inr (JArr xs) \<Rightarrow> xs | _ \<Rightarrow> [])"
      using True *(2,3) by (simp add: required_list_def)
    ultimately show ?thesis using injected_required [OF *(5)] True by simp
  next
    case False
    then show ?thesis using *(2,6) by (simp add: required_list_def AList.update_conv')
  qed
  then show ?thesis using * by blast
qed

lemma callback_property_at:
  assumes "restricted_callback extension propKey schema defs metaSchemaKey = Inr defs'"
  shows "\<exists>k p. ToString metaSchemaKey = Inr k \<and> ToString propKey = Inr p
     \<and> property_at defs' k p = Inr schema
     \<and> (\<forall>m q. (m, q) \<noteq> (k, p) \<longrightarrow> property_at defs' m q = property_at defs m q)"
proof -
  from restricted_callback_Inr [OF assms] obtain k dk f props p r where
    *: "ToString metaSchemaKey = Inr k" "defs = JObj dk" "map_of dk k = Some (JObj f)"
       "map_of f ''properties'' = Some (JObj props)" "ToString propKey = Inr p"
       "defs' = JObj (AList.update k (injected r propKey p schema props f) dk)"
    by blast
  have a: "property_at defs' k q = Inr (if q = p then schema else (case map_of props q of Some v \<Rightarrow> v | None \<Rightarrow> JUndefined))" for q
    using *(6) injected_properties [of r propKey p schema props f q]
    by (simp add: property_at_def AList.update_conv')
  have b: "property_at defs k q = Inr (case map_of props q of Some v \<Rightarrow> v | None \<Rightarrow> JUndefined)" for q
    using *(2,3,4) by (simp add: property_at_def)
  have c: "m \<noteq> k \<Longrightarrow> property_at defs' m q = property_at defs m q" for m q
    using *(2,6) by (simp add: property_at_def AList.update_conv')
  have "property_at defs' m q = property_at defs m q" if "(m, q) \<noteq> (k, p)" for m q
  proof (cases "m = k")
    case True
    then have "q \<noteq> p" using that by simp
    then show ?thesis using True a [of q] b [of q] by simp
  next
    case False
    then show ?thesis by (rule c)
  qed
  then show ?thesis using *(1,5) a [of p] by auto
qed

lemma callback_count_mono:
  assumes "restricted_callback extension propKey schema defs K = Inr defs'"
  shows "count_list (required_list defs m) x \<le> count_list (required_list defs' m) x"
  using callback_required_list [OF assms, of m] by auto

lemma callback_keeps_object:
  assumes "restricted_callback extension propKey schema defs K = Inr defs'"
  shows "\<exists>dk. defs = JObj dk"
  using restricted_callback_Inr [OF assms] by blast

lemma extension_count_mono:
  assumes "extension_callback defs extension = Inr defs'"
  shows "count_list (required_list defs m) x \<le> count_list (required_list defs' m) x"
proof -
  from extension_callback_Inr [OF assms] obtain propKey schema rs where
    *: "forEach_list rs (restricted_callback extension propKey schema) defs = Inr defs'" by blast
  show ?thesis
    by (rule forEach_list_relates [OF *,
          where R = "\<lambda>a b. count_list (required_list a m) x \<le> count_list (required_list b m) x"])
       (auto intro: callback_count_mono)
qed

lemma extensions_count_mono:
  assumes "forEach_list exts extension_callback defs = Inr defs'"
  shows "count_list (required_list defs m) x \<le> count_list (required_list defs' m) x"
  by (rule forEach_list_relates [OF assms,
        where R = "\<lambda>a b. count_list (required_list a m) x \<le> count_list (required_list b m) x"])
     (auto intro: extension_count_mono)

lemma extension_keeps_object:
  assumes "extension_callback defs extension = Inr defs'" "\<exists>dk. defs' = JObj dk"
  shows "\<exists>dk. defs = JObj dk"
proof -
  from extension_callback_Inr [OF assms(1)] obtain propKey schema rs where
    *: "forEach_list rs (restricted_callback extension propKey schema) defs = Inr defs'" by blast
  have "(\<exists>dk. defs' = JObj dk) \<longrightarrow> (\<exists>dk. defs = JObj dk)"
    by (rule forEach_list_relates [OF *,
          where R = "\<lambda>a b. (\<exists>dk. b = JObj dk) \<longrightarrow> (\<exists>dk. a = JObj dk)"])
       (auto dest: callback_keeps_object)
  then show ?thesis using assms(2) by simp
qed

lemma extensions_keep_object:
  assumes "forEach_list exts extension_callback defs = Inr defs'" "\<exists>dk. defs' = JObj dk"
  shows "\<exists>dk. defs = JObj dk"
proof -
  have "(\<exists>dk. defs' = JObj dk) \<longrightarrow> (\<exists>dk. defs = JObj dk)"
    by (rule forEach_list_relates [OF assms(1),
          where R = "\<lambda>a b. (\<exists>dk. b = JObj dk) \<longrightarrow> (\<exists>dk. a = JObj dk)"])
       (auto dest: extension_keeps_object)
  then show ?thesis using assms(2) by simp
qed

lemma extension_keeps_property:
  assumes "extension_callback defs extension = Inr defs'" "\<not> injects_into extension q m"
    "property_at defs m q = Inr x"
  shows "property_at defs' m q = Inr x"
proof -
  from extension_callback_Inr [OF assms(1)] obtain propKey schema rs where
    *: "get extension ''name'' = Inr propKey" "get extension ''restricted'' = Inr (JArr rs)"
       "forEach_list rs (restricted_callback extension propKey schema) defs = Inr defs'" by blast
  show ?thesis
  proof (rule forEach_list_preserves [OF *(3), where I = "\<lambda>a. property_at a m q = Inr x"])
    show "property_at defs m q = Inr x" by (rule assms(3))
  next
    fix a K b
    assume K: "K \<in> set rs" and a: "property_at a m q = Inr x"
      and s: "restricted_callback extension propKey schema a K = Inr b"
    from callback_property_at [OF s] obtain k p where
      kp: "ToString K = Inr k" "ToString propKey = Inr p"
          "\<forall>m q. (m, q) \<noteq> (k, p) \<longrightarrow> property_at b m q = property_at a m q" by blast
    have "(m, q) \<noteq> (k, p)"
    proof
      assume "(m, q) = (k, p)"
      then have "injects_into extension q m"
        using *(1,2) K kp(1,2) by (auto simp: injects_into_def)
      then show False using assms(2) by simp
    qed
    then show "property_at b m q = Inr x" using kp(3) a by simp
  qed
qed

lemma extensions_keep_property:
  assumes "forEach_list exts extension_callback defs = Inr defs'"
    "\<forall>D \<in> set exts. \<not> injects_into D q m" "property_at defs m q = Inr x"
  shows "property_at defs' m q = Inr x"
proof (rule forEach_list_preserves [OF assms(1), where I = "\<lambda>a. property_at a m q = Inr x"])
  show "property_at defs m q = Inr x" by (rule assms(3))
next
  fix a D b
  assume "D \<in> set exts" "property_at a m q = Inr x" "extension_callback a D = Inr b"
  then show "property_at b m q = Inr x"
    using extension_keeps_property [of a D b q m x] assms(2) by simp
qed

lemma applyExtensions_Inr:
  assumes "applyExtensionsToMetaSchema E document = Inr S"
    "get document ''x-extensions'' = Inr (JArr exts)"
  shows "\<exists>defs defs'. get (getMetaSchemaWithExtensionSchema E) ''definitions'' = Inr defs
      \<and> forEach_list exts extension_callback defs = Inr defs'
      \<and> S = (case defs of JObj d \<Rightarrow> set_own (getMetaSchemaWithExtensionSchema E) ''definitions'' defs'
              | _ \<Rightarrow> getMetaSchemaWithExtensionSchema E)"
proof -
  from assms obtain defs where 1: "get (getMetaSchemaWithExtensionSchema E) ''definitions'' = Inr defs"
    by (cases "get (getMetaSchemaWithExtensionSchema E) ''definitions''")
       (auto simp: applyExtensionsToMetaSchema_def)
  from assms 1 obtain defs' where 2: "forEach_list exts extension_callback defs = Inr defs'"
    by (cases "forEach_list exts extension_callback defs")
       (auto simp: applyExtensionsToMetaSchema_def)
  show ?thesis using assms 1 2 by (auto simp: applyExtensionsToMetaSchema_def Let_def)
qed

lemma injection_general:
  assumes ok: "applyExtensionsToMetaSchema E document = Inr S"
    and doc: "get document ''x-extensions'' = Inr (JArr (pre @ D # post))"
    and D: "get D ''name'' = Inr (JStr q)" "get D ''schema'' = Inr fragment"
      "get D ''restricted'' = Inr (JArr [JStr m])" "get D ''required'' = Inr (JBool True)"
  shows "\<exists>defs defs'.
        get (getMetaSchemaWithExtensionSchema E) ''definitions'' = Inr defs
      \<and> get S ''definitions'' = Inr defs'
      \<and> JStr q \<in> set (required_list defs' m)
      \<and> Suc (count_list (required_list defs m) (JStr q)) \<le> count_list (required_list defs' m) (JStr q)
      \<and> ((\<forall>D' \<in> set post. \<not> injects_into D' q m) \<longrightarrow> property_at defs' m q = Inr fragment)"
proof -
  let ?base = "getMetaSchemaWithExtensionSchema E"
  from applyExtensions_Inr [OF ok doc] obtain defs defs' where
    1: "get ?base ''definitions'' = Inr defs"
       "forEach_list (pre @ D # post) extension_callback defs = Inr defs'"
       "S = (case defs of JObj d \<Rightarrow> set_own ?base ''definitions'' defs' | _ \<Rightarrow> ?base)"
    by blast
  from 1(2) obtain d1 where d1: "forEach_list pre extension_callback defs = Inr d1"
      "forEach_list (D # post) extension_callback d1 = Inr defs'"
    by (cases "forEach_list pre extension_callback defs") (auto simp: forEach_list_append)
  from d1(2) obtain d2 where d2: "extension_callback d1 D = Inr d2"
      "forEach_list post extension_callback d2 = Inr defs'"
    by (cases "extension_callback d1 D") auto
  have cb: "restricted_callback D (JStr q) fragment d1 (JStr m) = Inr d2"
    using d2(1) D by (cases "restricted_callback D (JStr q) fragment d1 (JStr m)")
      (auto simp: extension_callback_def)
  from callback_required_list [OF cb, of m] D(4)
  have r2: "required_list d2 m = required_list d1 m @ [JStr q]" by auto
  from callback_property_at [OF cb] have p2: "property_at d2 m q = Inr fragment" by auto
  have "\<exists>dk. d1 = JObj dk" using cb by (rule callback_keeps_object)
  then have "\<exists>dk. defs = JObj dk" using d1(1) by (rule extensions_keep_object [rotated])
  then obtain dk where dk: "defs = JObj dk" by blast
  from get_JObj_Inr 1(1) dk obtain kvs where kvs: "?base = JObj kvs" by blast
  have S: "get S ''definitions'' = Inr defs'"
    using 1(3) dk kvs by (simp add: AList.update_conv')
  have c1: "count_list (required_list defs m) (JStr q) \<le> count_list (required_list d1 m) (JStr q)"
    using d1(1) by (rule extensions_count_mono)
  have c2: "count_list (required_list d2 m) (JStr q) \<le> count_list (required_list defs' m) (JStr q)"
    using d2(2) by (rule extensions_count_mono)
  have c: "Suc (count_list (required_list defs m) (JStr q)) \<le> count_list (required_list defs' m) (JStr q)"
    using c1 c2 r2 by simp
  then have "0 < count_list (required_list defs' m) (JStr q)" by simp
  then have mem: "JStr q \<in> set (required_list defs' m)"
    using count_list_0_iff [of "required_list defs' m" "JStr q"] by auto
  have "property_at defs' m q = Inr fragment" if "\<forall>D' \<in> set post. \<not> injects_into D' q m"
    using d2(2) that p2 by (rule extensions_keep_property)
  then show ?thesis using 1(1) S mem c by blast
qed

lemma callback_absent_fails:
  assumes "absent k defs" "ToString K = Inr k"
  shows "\<exists>e. restricted_callback extension propKey schema defs K = Inl e"
proof (cases "restricted_callback extension propKey schema defs K")
  case (Inl e)
  then show ?thesis by blast
next
  case (Inr defs')
  from restricted_callback_Inr [OF Inr] assms show ?thesis by (auto simp: absent_def)
qed

lemma callback_keeps_absent:
  assumes "restricted_callback extension propKey schema defs K = Inr defs'" "absent k defs"
  shows "absent k defs'"
proof -
  from restricted_callback_Inr [OF assms(1)] obtain k' dk f props p r where
    *: "defs = JObj dk" "map_of dk k' = Some (JObj f)"
       "defs' = JObj (AList.update k' (injected r propKey p schema props f) dk)"
    by blast
  have "k' \<noteq> k" using * assms(2) by (auto simp: absent_def)
  then show ?thesis using * assms(2) by (auto simp: absent_def AList.update_conv')
qed

lemma restricted_absent_fails:
  assumes "absent k defs" "K \<in> set rs" "ToString K = Inr k"
  shows "\<exists>e. forEach_list rs (restricted_callback extension propKey schema) defs = Inl e"
  using assms(1,2)
proof (induction rs arbitrary: defs)
  case Nil
  then show ?case by simp
next
  case (Cons a rs)
  show ?case
  proof (cases "restricted_callback extension propKey schema defs a")
    case (Inl e)
    then show ?thesis by simp
  next
    case (Inr defs')
    have "a \<noteq> K"
      using callback_absent_fails [OF Cons.prems(1) assms(3), of extension propKey schema] Inr
      by auto
    then have "K \<in> set rs" using Cons.prems(2) by simp
    moreover have "absent k defs'" using Inr Cons.prems(1) by (rule callback_keeps_absent)
    ultimately show ?thesis using Cons.IH Inr by simp
  qed
qed

lemma extension_keeps_absent:
  assumes "extension_callback defs extension = Inr defs'" "absent k defs"
  shows "absent k defs'"
proof -
  from extension_callback_Inr [OF assms(1)] obtain propKey schema rs where
    *: "forEach_list rs (restricted_callback extension propKey schema) defs = Inr defs'" by blast
  show ?thesis
    by (rule forEach_list_preserves [where I = "absent k", OF * assms(2)])
       (rule callback_keeps_absent)
qed

lemma extensions_keep_absent:
  assumes "forEach_list exts extension_callback defs = Inr defs'" "absent k defs"
  shows "absent k defs'"
  by (rule forEach_list_preserves [where I = "absent k", OF assms])
     (rule extension_keeps_absent)

lemma extension_absent_fails:
  assumes "absent k defs" "get D ''restricted'' = Inr (JArr rs)" "K \<in> set rs" "ToString K = Inr k"
  shows "\<exists>e. extension_callback defs D = Inl e"
proof (cases "extension_callback defs D")
  case (Inl e)
  then show ?thesis by blast
next
  case (Inr defs')
  from extension_callback_Inr [OF Inr] assms(2) obtain propKey schema where
    "forEach_list rs (restricted_callback D propKey schema) defs = Inr defs'" by auto
  then show ?thesis
    using restricted_absent_fails [OF assms(1,3,4), of D propKey schema] by simp
qed

lemma extensions_absent_fail:
  assumes "absent k defs" "D \<in> set exts" "get D ''restricted'' = Inr (JArr rs)" "K \<in> set rs"
    "ToString K = Inr k"
  shows "\<exists>e. forEach_list exts extension_callback defs = Inl e"
  using assms(1,2)
proof (induction exts arbitrary: defs)
  case Nil
  then show ?case by simp
next
  case (Cons a exts)
  show ?case
  proof (cases "extension_callback defs a")
    case (Inl e)
    then show ?thesis by simp
  next
    case (Inr defs')
    have "a \<noteq> D"
      using extension_absent_fails [OF Cons.prems(1) assms(3,4,5)] Inr by auto
    then have "D \<in> set exts" using Cons.prems(2) by simp
    moreover have "absent k defs'" using Inr Cons.prems(1) by (rule extension_keeps_absent)
    ultimately show ?thesis using Cons.IH Inr by simp
  qed
qed

lemma callback_absent_Error:
  assumes "absent k defs" "ToString K = Inr k" "k \<notin> set Object_prototype_keys"
    "ToString propKey = Inr n"
  shows "restricted_callback extension propKey schema defs K =
           Inl (Error (''Invalid meta schema key: '' @ k @ '' for openrpc extension '' @ n))"
  using assms by (auto simp: restricted_callback_def absent_def)

lemma validate_propagates:
  assumes "applyExtensionsToMetaSchema E document = Inl e"
  shows "validateOpenRPCDocument E document = ([], Inl e)"
  using assms by (simp add: validateOpenRPCDocument_def)

lemma applyExtensions_Inl:
  assumes "get (getMetaSchemaWithExtensionSchema E) ''definitions'' = Inr defs"
    "get document ''x-extensions'' = Inr (JArr exts)"
    "forEach_list exts extension_callback defs = Inl e"
  shows "applyExtensionsToMetaSchema E document = Inl e"
  using assms by (simp add: applyExtensionsToMetaSchema_def)

text \<open>
  Claim C2, as the code has it. Let the definitions of the meta-schema have no member \<open>k\<close>,
  and let the document contain a declaration \<open>D\<close> with a restricted entry \<open>K\<close> that is
  \<open>k\<close> as a string. Then \<open>applyExtensionsToMetaSchema\<close> throws, and
  \<open>validateOpenRPCDocument\<close> throws the same error without a call of the engine (and so
  returns no \<^verbatim>\<open>OpenRPCDocumentValidationError\<close>). When the declarations before \<open>D\<close> and
  the entries before \<open>K\<close> have been applied without an error, and \<open>k\<close> is not the name
  of a member that every object inherits, what is thrown is the \<^verbatim>\<open>Error\<close> with the message
  \<^verbatim>\<open>Invalid meta schema key: k for openrpc extension n\<close>, \<open>n\<close> being the name of \<open>D\<close>
  as a string.
\<close>

theorem missing_definition_is_fatal:
  assumes base: "get (getMetaSchemaWithExtensionSchema E) ''definitions'' = Inr (JObj dk)"
      "map_of dk k = None"
    and doc: "get document ''x-extensions'' = Inr (JArr (pre @ D # post))"
    and D: "get D ''name'' = Inr propKey" "get D ''schema'' = Inr schema"
      "get D ''restricted'' = Inr (JArr (rpre @ K # rpost))" "ToString K = Inr k"
  shows "(\<exists>e. applyExtensionsToMetaSchema E document = Inl e
            \<and> validateOpenRPCDocument E document = ([], Inl e))
       \<and> (\<forall>defs1 defs2 n.
            forEach_list pre extension_callback (JObj dk) = Inr defs1
          \<and> forEach_list rpre (restricted_callback D propKey schema) defs1 = Inr defs2
          \<and> k \<notin> set Object_prototype_keys \<and> ToString propKey = Inr n \<longrightarrow>
            applyExtensionsToMetaSchema E document =
              Inl (Error (''Invalid meta schema key: '' @ k @ '' for openrpc extension '' @ n))
          \<and> validateOpenRPCDocument E document =
              ([], Inl (Error (''Invalid meta schema key: '' @ k @ '' for openrpc extension '' @ n))))"
proof -
  have a0: "absent k (JObj dk)" using base(2) by (simp add: absent_def)
  have "\<exists>e. forEach_list (pre @ D # post) extension_callback (JObj dk) = Inl e"
    by (rule extensions_absent_fail [OF a0 _ D(3) _ D(4)]) simp_all
  then obtain e where "forEach_list (pre @ D # post) extension_callback (JObj dk) = Inl e" by blast
  then have "applyExtensionsToMetaSchema E document = Inl e"
    by (rule applyExtensions_Inl [OF base(1) doc])
  then have 1: "\<exists>e. applyExtensionsToMetaSchema E document = Inl e
            \<and> validateOpenRPCDocument E document = ([], Inl e)"
    using validate_propagates by blast
  have 2: "applyExtensionsToMetaSchema E document =
              Inl (Error (''Invalid meta schema key: '' @ k @ '' for openrpc extension '' @ n))
          \<and> validateOpenRPCDocument E document =
              ([], Inl (Error (''Invalid meta schema key: '' @ k @ '' for openrpc extension '' @ n)))"
    if h: "forEach_list pre extension_callback (JObj dk) = Inr defs1"
      "forEach_list rpre (restricted_callback D propKey schema) defs1 = Inr defs2"
      "k \<notin> set Object_prototype_keys" "ToString propKey = Inr n" for defs1 defs2 n
  proof -
    let ?err = "Error (''Invalid meta schema key: '' @ k @ '' for openrpc extension '' @ n)"
    have a1: "absent k defs1" using h(1) a0 by (rule extensions_keep_absent)
    have a2: "absent k defs2"
      by (rule forEach_list_preserves [where I = "absent k", OF h(2) a1])
         (rule callback_keeps_absent)
    have "restricted_callback D propKey schema defs2 K = Inl ?err"
      using a2 D(4) h(3,4) by (rule callback_absent_Error)
    then have "forEach_list (rpre @ K # rpost) (restricted_callback D propKey schema) defs1 = Inl ?err"
      using h(2) by (simp add: forEach_list_append)
    then have "extension_callback defs1 D = Inl ?err"
      using D by (simp add: extension_callback_def)
    then have "forEach_list (pre @ D # post) extension_callback (JObj dk) = Inl ?err"
      using h(1) by (simp add: forEach_list_append)
    then have "applyExtensionsToMetaSchema E document = Inl ?err"
      by (rule applyExtensions_Inl [OF base(1) doc])
    then show ?thesis using validate_propagates by blast
  qed
  from 1 2 show ?thesis by blast
qed

theorem missing_definition_is_fatal_witness:
  "applyExtensionsToMetaSchema example_env (document_with [missing_extension]) =
     Inl (Error ''Invalid meta schema key: NoSuchDef for openrpc extension x-b'')
   \<and> validateOpenRPCDocument example_env (document_with [missing_extension]) =
     ([], Inl (Error ''Invalid meta schema key: NoSuchDef for openrpc extension x-b''))"
proof -
  have base: "get (getMetaSchemaWithExtensionSchema example_env) ''definitions'' = Inr (JObj example_definitions)"
    "map_of example_definitions ''NoSuchDef'' = None"
    by (simp_all add: example_env_def example_metaSchema_def example_definitions_def)
  have doc: "get (document_with [missing_extension]) ''x-extensions'' = Inr (JArr ([] @ missing_extension # []))"
    by (simp add: document_with_def)
  have D: "get missing_extension ''name'' = Inr (JStr ''x-b'')"
    "get missing_extension ''schema'' = Inr (JObj [])"
    "get missing_extension ''restricted'' = Inr (JArr ([] @ JStr ''NoSuchDef'' # []))"
    "ToString (JStr ''NoSuchDef'') = Inr ''NoSuchDef''"
    by (simp_all add: missing_extension_def mk_extension_def)
  have r: "forEach_list [] extension_callback (JObj example_definitions) = Inr (JObj example_definitions)
          \<and> forEach_list [] (restricted_callback missing_extension (JStr ''x-b'') (JObj []))
                (JObj example_definitions) = Inr (JObj example_definitions)
          \<and> ''NoSuchDef'' \<notin> set Object_prototype_keys \<and> ToString (JStr ''x-b'') = Inr ''x-b''"
    by (simp add: Object_prototype_keys_def)
  from missing_definition_is_fatal [OF base doc D, THEN conjunct2, rule_format, OF r]
  show ?thesis by simp
qed

text \<open>
  Two documents that contain a declaration for the missing definition \<^verbatim>\<open>NoSuchDef\<close>, after
  another declaration. In the first the error names the definition and the extension of
  the earlier declaration, which fails first; in the second the earlier declaration pushes
  on the \<^verbatim>\<open>required\<close> that \<^verbatim>\<open>tagObject\<close> does not have, and the error is a \<^verbatim>\<open>TypeError\<close>.
\<close>

theorem missing_definition_is_fatal_counterexample:
  "get (document_with [mk_extension ''x-a'' (JObj []) ''NoSuchDefA'' False, missing_extension])
       ''x-extensions''
     = Inr (JArr [mk_extension ''x-a'' (JObj []) ''NoSuchDefA'' False, missing_extension])
   \<and> get missing_extension ''name'' = Inr (JStr ''x-b'')
   \<and> get missing_extension ''restricted'' = Inr (JArr [JStr ''NoSuchDef''])
   \<and> map_of example_definitions ''NoSuchDef'' = None
   \<and> applyExtensionsToMetaSchema example_env
       (document_with [mk_extension ''x-a'' (JObj []) ''NoSuchDefA'' False, missing_extension])
       = Inl (Error ''Invalid meta schema key: NoSuchDefA for openrpc extension x-a'')
   \<and> Error ''Invalid meta schema key: NoSuchDefA for openrpc extension x-a''
       \<noteq> Error ''Invalid meta schema key: NoSuchDef for openrpc extension x-b''
   \<and> get (document_with [mk_extension ''x-a'' (JObj []) ''tagObject'' True, missing_extension])
       ''x-extensions''
     = Inr (JArr [mk_extension ''x-a'' (JObj []) ''tagObject'' True, missing_extension])
   \<and> applyExtensionsToMetaSchema example_env
       (document_with [mk_extension ''x-a'' (JObj []) ''tagObject'' True, missing_extension])
       = Inl TypeError"
  by code_simp

text \<open>
  A restricted entry that is the name of an inherited member passes the test
  \<^verbatim>\<open>defs[metaSchemaKey] === undefined\<close>, though the definitions have no such member: the
  function throws a \<^verbatim>\<open>TypeError\<close> where the next statement reads \<^verbatim>\<open>required\<close> or
  \<^verbatim>\<open>properties\<close> of the inherited function.
\<close>

lemma inherited_member_name_passes_the_test:
  "map_of example_definitions ''constructor'' = None
   \<and> applyExtensionsToMetaSchema example_env
       (document_with [mk_extension ''x-a'' (JObj []) ''constructor'' True]) = Inl TypeError
   \<and> applyExtensionsToMetaSchema example_env
       (document_with [mk_extension ''x-a'' (JObj []) ''constructor'' False]) = Inl TypeError"
  by code_simp

lemma callback_lacks_required:
  assumes "lacks_required k defs" "ToString K = Inr k"
    "get extension ''required'' = Inr (JBool True)"
  shows "restricted_callback extension propKey schema defs K = Inl TypeError"
proof -
  from assms(1) obtain dk f where *: "defs = JObj dk" "map_of dk k = Some (JObj f)"
    "\<forall>xs. map_of f ''required'' \<noteq> Some (JArr xs)" by (auto simp: lacks_required_def)
  have "push (case map_of f ''required'' of Some v \<Rightarrow> v | None \<Rightarrow> JUndefined) propKey = Inl TypeError"
    using *(3) by (cases "map_of f ''required''"; cases "the (map_of f ''required'')") auto
  then show ?thesis using assms(2,3) *(1,2)
    by (simp add: restricted_callback_def required_push_def)
qed

lemma get_Inl: "get v k = Inl e \<Longrightarrow> e = TypeError"
  by (cases v) auto

lemma push_Inl: "push r x = Inl e \<Longrightarrow> e = TypeError"
  by (cases r) auto

lemma required_push_JObj:
  assumes "map_of dk k = Some (JObj f)"
  shows "required_push (JObj dk) k propKey =
     andThen (push (case map_of f ''required'' of Some v \<Rightarrow> v | None \<Rightarrow> JUndefined) propKey)
       (\<lambda>r'. Inr (JObj (AList.update k (JObj (AList.update ''required'' r' f)) dk)))"
  using assms by (simp add: required_push_def)

lemma callback_lacks_properties:
  assumes "lacks_properties k defs" "ToString K = Inr k"
  shows "restricted_callback extension propKey schema defs K = Inl TypeError"
proof -
  from assms(1) obtain dk f where *: "defs = JObj dk" "map_of dk k = Some (JObj f)"
    "map_of f ''properties'' = None" by (auto simp: lacks_properties_def)
  have pa: "properties_assign (JObj dk') k propKey schema = Inl TypeError"
    if "map_of dk' k = Some (JObj f')" "map_of f' ''properties'' = None" for dk' f'
    using that by (simp add: properties_assign_def)
  show ?thesis
  proof (cases "get extension ''required''")
    case (Inl e)
    then show ?thesis using assms(2) * get_Inl [OF Inl]
      by (simp add: restricted_callback_def)
  next
    case (Inr r)
    show ?thesis
    proof (cases "r = JBool True")
      case False
      then show ?thesis using assms(2) * Inr pa [OF *(2,3)]
        by (simp add: restricted_callback_def)
    next
      case True
      let ?r = "case map_of f ''required'' of Some v \<Rightarrow> v | None \<Rightarrow> JUndefined"
      show ?thesis
      proof (cases "push ?r propKey")
        case (Inl e)
        then show ?thesis using assms(2) * Inr True push_Inl [OF Inl]
          by (simp add: restricted_callback_def required_push_JObj)
      next
        case r': (Inr r')
        have np: "map_of (AList.update ''required'' r' f) ''properties'' = None"
          using *(3) by (simp add: AList.update_conv')
        have "properties_assign (JObj (AList.update k (JObj (AList.update ''required'' r' f)) dk))
                k propKey schema = Inl TypeError"
          by (rule pa [OF _ np]) (simp add: AList.update_conv')
        then show ?thesis using assms(2) * Inr True r'
          by (simp add: restricted_callback_def required_push_JObj)
      qed
    qed
  qed
qed

lemma callback_keeps_lacks_required:
  assumes "restricted_callback extension propKey schema defs K = Inr defs'" "lacks_required k defs"
  shows "lacks_required k defs'"
proof -
  from restricted_callback_Inr [OF assms(1)] obtain k' dk f props p r where
    *: "defs = JObj dk" "map_of dk k' = Some (JObj f)"
       "r = JBool True \<longrightarrow> (\<exists>xs. map_of f ''required'' = Some (JArr xs))"
       "defs' = JObj (AList.update k' (injected r propKey p schema props f) dk)"
    by blast
  show ?thesis
  proof (cases "k' = k")
    case False
    then show ?thesis using * assms(2) by (auto simp: lacks_required_def AList.update_conv')
  next
    case True
    then have nr: "\<forall>xs. map_of f ''required'' \<noteq> Some (JArr xs)"
      using *(1,2) assms(2) by (auto simp: lacks_required_def)
    then have "r \<noteq> JBool True" using *(3) by auto
    then have "injected r propKey p schema props f =
        JObj (AList.update ''properties'' (JObj (AList.update p schema props)) f)"
      by (simp add: injected_def with_required_def)
    then show ?thesis using True *(1,4) nr
      by (auto simp: lacks_required_def AList.update_conv')
  qed
qed

lemma callback_keeps_lacks_properties:
  assumes "restricted_callback extension propKey schema defs K = Inr defs'" "lacks_properties k defs"
  shows "lacks_properties k defs'"
proof -
  from restricted_callback_Inr [OF assms(1)] obtain k' dk f props p r where
    *: "defs = JObj dk" "map_of dk k' = Some (JObj f)"
       "map_of f ''properties'' = Some (JObj props)"
       "defs' = JObj (AList.update k' (injected r propKey p schema props f) dk)"
    by blast
  have "k' \<noteq> k" using * assms(2) by (auto simp: lacks_properties_def)
  then show ?thesis using * assms(2) by (auto simp: lacks_properties_def AList.update_conv')
qed

lemma extension_keeps:
  assumes "extension_callback defs extension = Inr defs'" "I defs"
    and "\<And>propKey schema a K b. I a \<Longrightarrow> restricted_callback extension propKey schema a K = Inr b \<Longrightarrow> I b"
  shows "I defs'"
proof -
  from extension_callback_Inr [OF assms(1)] obtain propKey schema rs where
    *: "forEach_list rs (restricted_callback extension propKey schema) defs = Inr defs'" by blast
  show ?thesis
  proof (rule forEach_list_preserves [where I = I, OF * assms(2)])
    fix a K b
    assume "I a" "restricted_callback extension propKey schema a K = Inr b"
    then show "I b" by (rule assms(3))
  qed
qed

lemma extensions_keep:
  assumes "forEach_list exts extension_callback defs = Inr defs'" "I defs"
    and "\<And>extension propKey schema a K b.
           I a \<Longrightarrow> restricted_callback extension propKey schema a K = Inr b \<Longrightarrow> I b"
  shows "I defs'"
proof (rule forEach_list_preserves [where I = I, OF assms(1,2)])
  fix a D b
  assume a: "I a" and e: "extension_callback a D = Inr b"
  show "I b" by (rule extension_keeps [where I = I, OF e a]) (rule assms(3))
qed

lemma reached_failure:
  assumes "get (getMetaSchemaWithExtensionSchema E) ''definitions'' = Inr defs"
    and "get document ''x-extensions'' = Inr (JArr (pre @ D # post))"
    and "get D ''name'' = Inr propKey" "get D ''schema'' = Inr schema"
      "get D ''restricted'' = Inr (JArr (rpre @ K # rpost))"
    and "forEach_list pre extension_callback defs = Inr defs1"
      "forEach_list rpre (restricted_callback D propKey schema) defs1 = Inr defs2"
    and "restricted_callback D propKey schema defs2 K = Inl e"
  shows "applyExtensionsToMetaSchema E document = Inl e
       \<and> validateOpenRPCDocument E document = ([], Inl e)"
proof -
  have "forEach_list (rpre @ K # rpost) (restricted_callback D propKey schema) defs1 = Inl e"
    using assms(7,8) by (simp add: forEach_list_append)
  then have "extension_callback defs1 D = Inl e"
    using assms(3,4,5) by (simp add: extension_callback_def)
  then have "forEach_list (pre @ D # post) extension_callback defs = Inl e"
    using assms(6) by (simp add: forEach_list_append)
  then have "applyExtensionsToMetaSchema E document = Inl e"
    by (rule applyExtensions_Inl [OF assms(1,2)])
  then show ?thesis using validate_propagates by blast
qed

text \<open>
  Claim C10. The callback tests only that \<^verbatim>\<open>defs[metaSchemaKey]\<close> is there. Let the
  entry \<open>K\<close> of the declaration \<open>D\<close> be reached (what comes before it is applied without
  an error) and name the definition \<open>k\<close>, an object. When \<open>D\<close> is required and the
  definition has no array \<^verbatim>\<open>required\<close>, the callback throws a \<^verbatim>\<open>TypeError\<close> (not the
  \<^verbatim>\<open>Error\<close> of a missing definition), and so do \<open>applyExtensionsToMetaSchema\<close> and
  \<open>validateOpenRPCDocument\<close>, before any call of the engine; and the same when the definition
  has no \<^verbatim>\<open>properties\<close>, whether \<open>D\<close> is required or not.
\<close>

theorem unguarded_definition_fields:
  assumes base: "get (getMetaSchemaWithExtensionSchema E) ''definitions'' = Inr defs"
    and doc: "get document ''x-extensions'' = Inr (JArr (pre @ D # post))"
    and D: "get D ''name'' = Inr propKey" "get D ''schema'' = Inr schema"
      "get D ''restricted'' = Inr (JArr (rpre @ K # rpost))" "ToString K = Inr k"
    and reach: "forEach_list pre extension_callback defs = Inr defs1"
      "forEach_list rpre (restricted_callback D propKey schema) defs1 = Inr defs2"
  shows "(lacks_required k defs \<and> get D ''required'' = Inr (JBool True) \<longrightarrow>
            restricted_callback D propKey schema defs2 K = Inl TypeError
          \<and> applyExtensionsToMetaSchema E document = Inl TypeError
          \<and> validateOpenRPCDocument E document = ([], Inl TypeError))
       \<and> (lacks_properties k defs \<longrightarrow>
            restricted_callback D propKey schema defs2 K = Inl TypeError
          \<and> applyExtensionsToMetaSchema E document = Inl TypeError
          \<and> validateOpenRPCDocument E document = ([], Inl TypeError))"
proof -
  have 1: "restricted_callback D propKey schema defs2 K = Inl TypeError"
    if h: "lacks_required k defs" "get D ''required'' = Inr (JBool True)"
  proof -
    have "lacks_required k defs1"
      by (rule extensions_keep [where I = "lacks_required k", OF reach(1) h(1)])
         (rule callback_keeps_lacks_required)
    then have "lacks_required k defs2"
      by (rule forEach_list_preserves [where I = "lacks_required k", OF reach(2)])
         (rule callback_keeps_lacks_required)
    then show ?thesis using D(4) h(2) by (rule callback_lacks_required)
  qed
  have 2: "restricted_callback D propKey schema defs2 K = Inl TypeError"
    if h: "lacks_properties k defs"
  proof -
    have "lacks_properties k defs1"
      by (rule extensions_keep [where I = "lacks_properties k", OF reach(1) h])
         (rule callback_keeps_lacks_properties)
    then have "lacks_properties k defs2"
      by (rule forEach_list_preserves [where I = "lacks_properties k", OF reach(2)])
         (rule callback_keeps_lacks_properties)
    then show ?thesis using D(4) by (rule callback_lacks_properties)
  qed
  from 1 2 reached_failure [OF base doc D(1,2,3) reach] show ?thesis by blast
qed

theorem unguarded_definition_fields_witness:
  "lacks_required ''tagObject'' (JObj example_definitions)
   \<and> lacks_properties ''tagObject'' (JObj example_definitions)
   \<and> applyExtensionsToMetaSchema example_env
       (document_with [mk_extension ''x-a'' (JObj []) ''tagObject'' True]) = Inl TypeError
   \<and> validateOpenRPCDocument example_env
       (document_with [mk_extension ''x-a'' (JObj []) ''tagObject'' True]) = ([], Inl TypeError)"
proof -
  let ?D = "mk_extension ''x-a'' (JObj []) ''tagObject'' True"
  have base: "get (getMetaSchemaWithExtensionSchema example_env) ''definitions'' = Inr (JObj example_definitions)"
    by (simp add: example_env_def example_metaSchema_def)
  have doc: "get (document_with [?D]) ''x-extensions'' = Inr (JArr ([] @ ?D # []))"
    by (simp add: document_with_def)
  have D: "get ?D ''name'' = Inr (JStr ''x-a'')" "get ?D ''schema'' = Inr (JObj [])"
    "get ?D ''restricted'' = Inr (JArr ([] @ JStr ''tagObject'' # []))"
    "ToString (JStr ''tagObject'') = Inr ''tagObject''"
    by (simp_all add: mk_extension_def)
  have reach: "forEach_list [] extension_callback (JObj example_definitions) = Inr (JObj example_definitions)"
    "forEach_list [] (restricted_callback ?D (JStr ''x-a'') (JObj [])) (JObj example_definitions)
       = Inr (JObj example_definitions)"
    by simp_all
  have lr: "lacks_required ''tagObject'' (JObj example_definitions)"
    by (simp add: lacks_required_def example_definitions_def)
  have lp: "lacks_properties ''tagObject'' (JObj example_definitions)"
    by (simp add: lacks_properties_def example_definitions_def)
  have req: "get ?D ''required'' = Inr (JBool True)" by (simp add: mk_extension_def)
  note T = unguarded_definition_fields [OF base doc D reach, THEN conjunct1, rule_format,
      OF conjI [OF lr req]]
  from lr lp T [THEN conjunct2, THEN conjunct1] T [THEN conjunct2, THEN conjunct2]
  show ?thesis by (intro conjI)
qed

lemma callback_succeeds:
  assumes "ToString K = Inr k" "map_of dk k = Some (JObj f)"
    "map_of f ''required'' = Some (JArr xs)" "map_of f ''properties'' = Some (JObj props)"
    "get extension ''required'' = Inr (JBool True)" "ToString propKey = Inr p" "p \<noteq> ''__proto__''"
  shows "\<exists>defs'. restricted_callback extension propKey schema (JObj dk) K = Inr defs'"
  using assms
  by (simp add: restricted_callback_def required_push_def properties_assign_def AList.update_conv')

lemma single_declaration_succeeds:
  assumes "get (getMetaSchemaWithExtensionSchema E) ''definitions'' = Inr (JObj dk)"
    "map_of dk m = Some (JObj f)"
    "map_of f ''required'' = Some (JArr xs)" "map_of f ''properties'' = Some (JObj props)"
    "get document ''x-extensions'' = Inr (JArr [D])"
    "get D ''name'' = Inr (JStr q)" "get D ''schema'' = Inr fragment"
    "get D ''restricted'' = Inr (JArr [JStr m])" "get D ''required'' = Inr (JBool True)"
    "q \<noteq> ''__proto__''"
  shows "\<exists>S. applyExtensionsToMetaSchema E document = Inr S"
proof -
  from callback_succeeds [of "JStr m" m dk f xs props D "JStr q" q fragment] assms
  obtain defs' where "restricted_callback D (JStr q) fragment (JObj dk) (JStr m) = Inr defs'"
    by auto
  then show ?thesis using assms
    by (simp add: applyExtensionsToMetaSchema_def extension_callback_def)
qed

text \<open>
  Claim C1, as the code has it. Let the \<^verbatim>\<open>x-extensions\<close> of the document contain a
  declaration \<open>D\<close> with the name \<^verbatim>\<open>x-foo\<close>, restricted to \<^verbatim>\<open>MethodObject\<close> alone and
  required. Whenever \<open>applyExtensionsToMetaSchema\<close> returns a schema \<open>S\<close> (no declaration
  of the document makes it throw), \<^verbatim>\<open>x-foo\<close> is in \<^verbatim>\<open>definitions.MethodObject.required\<close>
  of \<open>S\<close>, where it occurs at least once more than in the meta-schema before (the name is
  pushed, whether it is there already or not), and
  \<^verbatim>\<open>definitions.MethodObject.properties["x-foo"]\<close> of \<open>S\<close> is the schema of \<open>D\<close>, unless a
  later declaration injects \<^verbatim>\<open>x-foo\<close> into \<^verbatim>\<open>MethodObject\<close> as well. When \<open>D\<close> is the
  only declaration and the definition \<^verbatim>\<open>MethodObject\<close> of the meta-schema has an array
  \<^verbatim>\<open>required\<close> and an object \<^verbatim>\<open>properties\<close>, the function does return a schema.
\<close>

theorem extension_injection:
  assumes doc: "get document ''x-extensions'' = Inr (JArr (pre @ D # post))"
    and D: "get D ''name'' = Inr (JStr ''x-foo'')" "get D ''schema'' = Inr fragment"
      "get D ''restricted'' = Inr (JArr [JStr ''MethodObject''])"
      "get D ''required'' = Inr (JBool True)"
  shows "(\<forall>S. applyExtensionsToMetaSchema E document = Inr S \<longrightarrow>
            JStr ''x-foo'' \<in> set (schema_required S ''MethodObject'')
          \<and> Suc (count_list (schema_required (getMetaSchemaWithExtensionSchema E) ''MethodObject'')
                   (JStr ''x-foo''))
              \<le> count_list (schema_required S ''MethodObject'') (JStr ''x-foo'')
          \<and> ((\<forall>D' \<in> set post. \<not> injects_into D' ''x-foo'' ''MethodObject'') \<longrightarrow>
                schema_property S ''MethodObject'' ''x-foo'' = Inr fragment))
       \<and> (pre = [] \<and> post = []
          \<and> (\<exists>defs. get (getMetaSchemaWithExtensionSchema E) ''definitions'' = Inr defs
                \<and> accepts_extensions ''MethodObject'' defs) \<longrightarrow>
            (\<exists>S. applyExtensionsToMetaSchema E document = Inr S))"
proof -
  have 1: "JStr ''x-foo'' \<in> set (schema_required S ''MethodObject'')
          \<and> Suc (count_list (schema_required (getMetaSchemaWithExtensionSchema E) ''MethodObject'')
                   (JStr ''x-foo''))
              \<le> count_list (schema_required S ''MethodObject'') (JStr ''x-foo'')
          \<and> ((\<forall>D' \<in> set post. \<not> injects_into D' ''x-foo'' ''MethodObject'') \<longrightarrow>
                schema_property S ''MethodObject'' ''x-foo'' = Inr fragment)"
    if ok: "applyExtensionsToMetaSchema E document = Inr S" for S
  proof -
    from injection_general [OF ok doc D] obtain defs defs' where
      *: "get (getMetaSchemaWithExtensionSchema E) ''definitions'' = Inr defs"
         "get S ''definitions'' = Inr defs'"
         "JStr ''x-foo'' \<in> set (required_list defs' ''MethodObject'')"
         "Suc (count_list (required_list defs ''MethodObject'') (JStr ''x-foo''))
            \<le> count_list (required_list defs' ''MethodObject'') (JStr ''x-foo'')"
         "(\<forall>D' \<in> set post. \<not> injects_into D' ''x-foo'' ''MethodObject'') \<longrightarrow>
            property_at defs' ''MethodObject'' ''x-foo'' = Inr fragment"
      by blast
    show ?thesis using * by (simp add: schema_required_def schema_property_def)
  qed
  have 2: "\<exists>S. applyExtensionsToMetaSchema E document = Inr S"
    if h: "pre = []" "post = []"
      "\<exists>defs. get (getMetaSchemaWithExtensionSchema E) ''definitions'' = Inr defs
          \<and> accepts_extensions ''MethodObject'' defs"
  proof -
    from h(3) obtain dk f xs props where
      *: "get (getMetaSchemaWithExtensionSchema E) ''definitions'' = Inr (JObj dk)"
         "map_of dk ''MethodObject'' = Some (JObj f)"
         "map_of f ''required'' = Some (JArr xs)" "map_of f ''properties'' = Some (JObj props)"
      by (auto simp: accepts_extensions_def)
    have d: "get document ''x-extensions'' = Inr (JArr [D])" using doc h(1,2) by simp
    show ?thesis by (rule single_declaration_succeeds [OF * d D]) simp
  qed
  from 1 2 show ?thesis by blast
qed

theorem extension_injection_witness:
  "applyExtensionsToMetaSchema example_env (document_with [example_extension]) = Inr extended_metaSchema
   \<and> JStr ''x-foo'' \<in> set (schema_required extended_metaSchema ''MethodObject'')
   \<and> Suc (count_list (schema_required example_metaSchema ''MethodObject'') (JStr ''x-foo''))
       \<le> count_list (schema_required extended_metaSchema ''MethodObject'') (JStr ''x-foo'')
   \<and> schema_property extended_metaSchema ''MethodObject'' ''x-foo'' = Inr (JObj [(''type'', JStr ''string'')])"
proof -
  have doc: "get (document_with [example_extension]) ''x-extensions'' = Inr (JArr ([] @ example_extension # []))"
    by (simp add: document_with_def)
  have D: "get example_extension ''name'' = Inr (JStr ''x-foo'')"
    "get example_extension ''schema'' = Inr (JObj [(''type'', JStr ''string'')])"
    "get example_extension ''restricted'' = Inr (JArr [JStr ''MethodObject''])"
    "get example_extension ''required'' = Inr (JBool True)"
    by (simp_all add: example_extension_def mk_extension_def)
  have ok: "applyExtensionsToMetaSchema example_env (document_with [example_extension]) = Inr extended_metaSchema"
    by code_simp
  have b: "getMetaSchemaWithExtensionSchema example_env = example_metaSchema"
    by (simp add: example_env_def)
  note T = extension_injection [OF doc D, of example_env, THEN conjunct1, rule_format, OF ok]
  have 1: "JStr ''x-foo'' \<in> set (schema_required extended_metaSchema ''MethodObject'')"
    using T by (rule conjunct1)
  have 2: "Suc (count_list (schema_required example_metaSchema ''MethodObject'') (JStr ''x-foo''))
       \<le> count_list (schema_required extended_metaSchema ''MethodObject'') (JStr ''x-foo'')"
    using T [THEN conjunct2, THEN conjunct1] b by simp
  have 3: "schema_property extended_metaSchema ''MethodObject'' ''x-foo'' = Inr (JObj [(''type'', JStr ''string'')])"
    using T [THEN conjunct2, THEN conjunct2] by simp
  from ok 1 2 3 show ?thesis by (intro conjI)
qed

text \<open>
  A document with the declaration of claim C1 followed by a second declaration of
  \<^verbatim>\<open>x-foo\<close> for \<^verbatim>\<open>MethodObject\<close>: the property is the schema of the second. And a
  document with the declaration followed by one for a missing definition: the function
  returns no schema.
\<close>

theorem extension_injection_counterexample:
  "get (document_with [example_extension, later_extension]) ''x-extensions''
     = Inr (JArr [example_extension, later_extension])
   \<and> get example_extension ''name'' = Inr (JStr ''x-foo'')
   \<and> get example_extension ''restricted'' = Inr (JArr [JStr ''MethodObject''])
   \<and> get example_extension ''required'' = Inr (JBool True)
   \<and> get example_extension ''schema'' = Inr (JObj [(''type'', JStr ''string'')])
   \<and> injected_property example_env (document_with [example_extension, later_extension])
       ''MethodObject'' ''x-foo'' = Inr (JObj [(''type'', JStr ''number'')])
   \<and> get (document_with [example_extension, missing_extension]) ''x-extensions''
       = Inr (JArr [example_extension, missing_extension])
   \<and> applyExtensionsToMetaSchema example_env (document_with [example_extension, missing_extension])
       = Inl (Error ''Invalid meta schema key: NoSuchDef for openrpc extension x-b'')"
  by code_simp

subsection \<open>The working copy\<close>

lemma well_nested_Nil [simp]: "well_nested n []"
  by (simp add: well_nested_def)

lemma unreferenced_Nil [simp]: "unreferenced A []"
  by (simp add: unreferenced_def)

lemma well_nested_bound:
  assumes "well_nested n ext" "i < length ext" "x \<in> refs_obj (ext ! i)"
  shows "n \<le> x \<and> x < n + i"
proof -
  have "refs_obj (ext ! i) \<subseteq> {n ..< n + i}" using assms(1,2) by (simp add: well_nested_def)
  then show ?thesis using assms(3) by auto
qed

lemma well_nested_append:
  assumes "well_nested n e1" "well_nested (n + length e1) e2"
  shows "well_nested n (e1 @ e2)"
  unfolding well_nested_def
proof (intro conjI allI impI)
  fix i assume i: "i < length (e1 @ e2)"
  show "refs_obj ((e1 @ e2) ! i) \<subseteq> {n ..< n + i}"
  proof (cases "i < length e1")
    case True
    then show ?thesis using assms(1) by (auto simp: well_nested_def nth_append)
  next
    case False
    then have "i - length e1 < length e2" using i by simp
    then have "refs_obj (e2 ! (i - length e1)) \<subseteq> {n + length e1 ..< n + length e1 + (i - length e1)}"
      using assms(2) by (simp add: well_nested_def)
    then show ?thesis using False by (auto simp: nth_append)
  qed
next
  fix i j assume i: "i < length (e1 @ e2)" and j: "j < length (e1 @ e2)" and ne: "i \<noteq> j"
  have low: "x < n + length e1" if "k < length e1" "x \<in> refs_obj (e1 ! k)" for k x
    using well_nested_bound [OF assms(1) that] that(1) by simp
  have high: "n + length e1 \<le> x" if "k < length e2" "x \<in> refs_obj (e2 ! k)" for k x
    using well_nested_bound [OF assms(2) that] by simp
  show "refs_obj ((e1 @ e2) ! i) \<inter> refs_obj ((e1 @ e2) ! j) = {}"
  proof (cases "i < length e1"; cases "j < length e1")
    assume a: "i < length e1" "j < length e1"
    then show ?thesis using assms(1) ne by (simp add: well_nested_def nth_append)
  next
    assume a: "i < length e1" "\<not> j < length e1"
    then have "j - length e1 < length e2" using j by simp
    then show ?thesis using a low [OF a(1)] high [of "j - length e1"]
      by (fastforce simp: nth_append)
  next
    assume a: "\<not> i < length e1" "j < length e1"
    then have "i - length e1 < length e2" using i by simp
    then show ?thesis using a low [OF a(2)] high [of "i - length e1"]
      by (fastforce simp: nth_append)
  next
    assume a: "\<not> i < length e1" "\<not> j < length e1"
    then have "i - length e1 < length e2" "j - length e1 < length e2" "i - length e1 \<noteq> j - length e1"
      using i j ne by auto
    then show ?thesis using assms(2) a by (simp add: well_nested_def nth_append)
  qed
qed

lemma copied_Nil: "copied n {} []"
  by (simp add: copied_def)

lemma copied_cons:
  assumes "copied n A e1" "copied (n + length e1) B e2"
  shows "copied n (A \<union> B) (e1 @ e2)"
proof -
  have wn: "well_nested n (e1 @ e2)"
    using assms by (auto simp: copied_def intro: well_nested_append)
  have sub: "A \<union> B \<subseteq> {n ..< n + length (e1 @ e2)}"
    using assms by (auto simp: copied_def)
  have un: "unreferenced (A \<union> B) (e1 @ e2)"
    unfolding unreferenced_def
  proof (intro allI impI)
    fix i assume i: "i < length (e1 @ e2)"
    show "refs_obj ((e1 @ e2) ! i) \<inter> (A \<union> B) = {}"
    proof (cases "i < length e1")
      case True
      have "refs_obj (e1 ! i) \<inter> A = {}" using assms(1) True by (simp add: copied_def unreferenced_def)
      moreover have "x < n + length e1" if "x \<in> refs_obj (e1 ! i)" for x
        using well_nested_bound [of n e1 i x] assms(1) True that by (simp add: copied_def)
      moreover have "n + length e1 \<le> x" if "x \<in> B" for x
        using assms(2) that by (auto simp: copied_def)
      ultimately show ?thesis using True by (fastforce simp: nth_append)
    next
      case False
      then have k: "i - length e1 < length e2" using i by simp
      have "refs_obj (e2 ! (i - length e1)) \<inter> B = {}"
        using assms(2) k by (simp add: copied_def unreferenced_def)
      moreover have "n + length e1 \<le> x" if "x \<in> refs_obj (e2 ! (i - length e1))" for x
        using well_nested_bound [of "n + length e1" e2 "i - length e1" x] assms(2) k that
        by (simp add: copied_def)
      moreover have "x < n + length e1" if "x \<in> A" for x
        using assms(1) that by (auto simp: copied_def)
      ultimately show ?thesis using False by (fastforce simp: nth_append)
    qed
  qed
  from wn sub un show ?thesis by (simp add: copied_def)
qed

lemma copied_node:
  assumes "copied n A ext" "refs_obj obj = A"
  shows "copied n {n + length ext} (ext @ [obj])"
proof -
  have wn1: "well_nested (n + length ext) [obj]"
    if "A = {}" using that assms(2) by (simp add: well_nested_def)
  have wn: "well_nested n (ext @ [obj])"
    unfolding well_nested_def
  proof (intro conjI allI impI)
    fix i assume i: "i < length (ext @ [obj])"
    show "refs_obj ((ext @ [obj]) ! i) \<subseteq> {n ..< n + i}"
    proof (cases "i < length ext")
      case True
      then show ?thesis using assms(1) by (auto simp: copied_def well_nested_def nth_append)
    next
      case False
      then have "i = length ext" using i by simp
      then show ?thesis using assms by (auto simp: copied_def nth_append)
    qed
  next
    fix i j assume i: "i < length (ext @ [obj])" and j: "j < length (ext @ [obj])" and ne: "i \<noteq> j"
    show "refs_obj ((ext @ [obj]) ! i) \<inter> refs_obj ((ext @ [obj]) ! j) = {}"
    proof (cases "i < length ext"; cases "j < length ext")
      assume "i < length ext" "j < length ext"
      then show ?thesis using assms(1) ne by (simp add: copied_def well_nested_def nth_append)
    next
      assume a: "i < length ext" "\<not> j < length ext"
      then have "j = length ext" using j by simp
      then show ?thesis using a assms by (auto simp: copied_def unreferenced_def nth_append)
    next
      assume a: "\<not> i < length ext" "j < length ext"
      then have "i = length ext" using i by simp
      then show ?thesis using a assms by (auto simp: copied_def unreferenced_def nth_append)
    next
      assume "\<not> i < length ext" "\<not> j < length ext"
      then show ?thesis using i j ne by simp
    qed
  qed
  have un: "unreferenced {n + length ext} (ext @ [obj])"
    unfolding unreferenced_def
  proof (intro allI impI)
    fix i assume i: "i < length (ext @ [obj])"
    have "x < n + i" if "x \<in> refs_obj ((ext @ [obj]) ! i)" for x
      using well_nested_bound [OF wn i that] by simp
    then show "refs_obj ((ext @ [obj]) ! i) \<inter> {n + length ext} = {}"
      using i by fastforce
  qed
  from wn un show ?thesis by (simp add: copied_def)
qed

lemma fresh_copy_copied:
  "fresh_copy j h = (v, h') \<Longrightarrow> \<exists>ext. h' = h @ ext \<and> copied (length h) (refs_val v) ext"
  "fresh_copy_list js h = (vs, h') \<Longrightarrow>
     \<exists>ext. h' = h @ ext \<and> copied (length h) (\<Union>x \<in> set vs. refs_val x) ext"
  "fresh_copy_fields kjs h = (fs, h') \<Longrightarrow>
     \<exists>ext. h' = h @ ext \<and> copied (length h) (\<Union>kv \<in> set fs. refs_val (snd kv)) ext"
proof (induction j h and js h and kjs h arbitrary: v h' and vs h' and fs h'
    rule: fresh_copy_fresh_copy_list_fresh_copy_fields.induct)
  case (6 xs h)
  obtain vs h1 where c: "fresh_copy_list xs h = (vs, h1)" by (cases "fresh_copy_list xs h")
  from "6.IH" [OF c] obtain ext where e: "h1 = h @ ext"
    "copied (length h) (\<Union>x \<in> set vs. refs_val x) ext" by blast
  have "copied (length h) {length h + length ext} (ext @ [HArray vs])"
    by (rule copied_node [OF e(2)]) simp
  then show ?case using "6.prems" c e(1) by auto
next
  case (7 kvs h)
  obtain fs h1 where c: "fresh_copy_fields kvs h = (fs, h1)" by (cases "fresh_copy_fields kvs h")
  from "7.IH" [OF c] obtain ext where e: "h1 = h @ ext"
    "copied (length h) (\<Union>kv \<in> set fs. refs_val (snd kv)) ext" by blast
  have "copied (length h) {length h + length ext} (ext @ [HObject fs])"
    by (rule copied_node [OF e(2)]) simp
  then show ?case using "7.prems" c e(1) by auto
next
  case (9 x xs h)
  obtain v1 h1 where c1: "fresh_copy x h = (v1, h1)" by (cases "fresh_copy x h")
  obtain vs1 h2 where c2: "fresh_copy_list xs h1 = (vs1, h2)" by (cases "fresh_copy_list xs h1")
  from "9.IH"(1) [OF c1] obtain e1 where e1: "h1 = h @ e1" "copied (length h) (refs_val v1) e1"
    by blast
  from "9.IH"(2) [OF c1 [symmetric] c2] obtain e2 where e2: "h2 = h1 @ e2"
    "copied (length h1) (\<Union>x \<in> set vs1. refs_val x) e2" by blast
  have "copied (length h) (refs_val v1 \<union> (\<Union>x \<in> set vs1. refs_val x)) (e1 @ e2)"
    using e1 e2 by (auto intro: copied_cons)
  then show ?case using "9.prems" c1 c2 e1(1) e2(1) by auto
next
  case (11 kx kvs h)
  obtain v1 h1 where c1: "fresh_copy (snd kx) h = (v1, h1)" by (cases "fresh_copy (snd kx) h")
  obtain fs1 h2 where c2: "fresh_copy_fields kvs h1 = (fs1, h2)" by (cases "fresh_copy_fields kvs h1")
  from "11.IH"(1) [OF c1] obtain e1 where e1: "h1 = h @ e1" "copied (length h) (refs_val v1) e1"
    by blast
  from "11.IH"(2) [OF c1 [symmetric] c2] obtain e2 where e2: "h2 = h1 @ e2"
    "copied (length h1) (\<Union>kv \<in> set fs1. refs_val (snd kv)) e2" by blast
  have "copied (length h) (refs_val v1 \<union> (\<Union>kv \<in> set fs1. refs_val (snd kv))) (e1 @ e2)"
    using e1 e2 by (auto intro: copied_cons)
  then show ?case using "11.prems" c1 c2 e1(1) e2(1) by auto
qed (auto simp: copied_Nil)

lemma copied_separated:
  assumes "copied (length h) (refs_val root) ext"
  shows "separated (length h) (h @ ext) root"
proof -
  let ?n = "length h" and ?N = "length h + length ext" and ?H = "h @ ext"
  have wn: "well_nested ?n ext" and d: "refs_val root \<subseteq> {?n ..< ?N}"
    and un: "unreferenced (refs_val root) ext"
    using assms by (simp_all add: copied_def)
  have at: "refs_at ?H a = refs_obj (ext ! (a - ?n))" if "?n \<le> a" "a < ?N" for a
    using that by (simp add: refs_at_def nth_append)
  have a: "refs_at ?H a \<subseteq> {?n ..< ?N}" if "?n \<le> a" "a < ?N" for a
  proof
    fix x assume "x \<in> refs_at ?H a"
    then have x: "x \<in> refs_obj (ext ! (a - ?n))" using at [OF that] by simp
    have k: "a - ?n < length ext" using that by simp
    have "?n \<le> x \<and> x < ?n + (a - ?n)" using wn k x by (rule well_nested_bound)
    then show "x \<in> {?n ..< ?N}" using that by simp
  qed
  have b: "refs_at ?H a \<inter> refs_at ?H b = {}" if "?n \<le> a" "a < ?N" "?n \<le> b" "b < ?N" "a \<noteq> b" for a b
  proof -
    have "a - ?n < length ext" "b - ?n < length ext" "a - ?n \<noteq> b - ?n" using that by auto
    then have "refs_obj (ext ! (a - ?n)) \<inter> refs_obj (ext ! (b - ?n)) = {}"
      using wn by (simp add: well_nested_def)
    then show ?thesis using at that by simp
  qed
  have c: "refs_at ?H a \<inter> refs_val root = {}" if "?n \<le> a" "a < ?N" for a
  proof -
    have "a - ?n < length ext" using that by simp
    then have "refs_obj (ext ! (a - ?n)) \<inter> refs_val root = {}" using un by (simp add: unreferenced_def)
    then show ?thesis using at that by simp
  qed
  have nl: "next_level ?H A \<subseteq> {?n ..< ?N}" if "A \<subseteq> {?n ..< ?N}" for A
    using that a by (fastforce simp: next_level_def)
  have l1: "level1 ?H root \<subseteq> {?n ..< ?N}" unfolding level1_def by (rule nl [OF d])
  have l2: "level2 ?H root \<subseteq> {?n ..< ?N}" unfolding level2_def by (rule nl [OF l1])
  have l3: "level3 ?H root \<subseteq> {?n ..< ?N}" unfolding level3_def by (rule nl [OF l2])
  have noroot: "next_level ?H A \<inter> refs_val root = {}" if "A \<subseteq> {?n ..< ?N}" for A
    using that c by (fastforce simp: next_level_def)
  have r2: "refs_val root \<inter> level2 ?H root = {}"
    using noroot [OF l1] by (auto simp: level2_def)
  have r3: "refs_val root \<inter> level3 ?H root = {}"
    using noroot [OF l2] by (auto simp: level3_def)
  have parent: "A \<inter> B \<noteq> {}"
    if "x \<in> next_level ?H A" "x \<in> next_level ?H B" "A \<subseteq> {?n ..< ?N}" "B \<subseteq> {?n ..< ?N}" for x A B
  proof -
    from that(1) obtain p where p: "p \<in> A" "x \<in> refs_at ?H p" by (auto simp: next_level_def)
    from that(2) obtain q where q: "q \<in> B" "x \<in> refs_at ?H q" by (auto simp: next_level_def)
    have "p = q"
    proof (rule ccontr)
      assume ne: "p \<noteq> q"
      have "?n \<le> p" "p < ?N" "?n \<le> q" "q < ?N" using p(1) q(1) that(3,4) by auto
      then have "refs_at ?H p \<inter> refs_at ?H q = {}" using ne by (rule b)
      then show False using p(2) q(2) by auto
    qed
    then show ?thesis using p(1) q(1) by auto
  qed
  have s12: "level1 ?H root \<inter> level2 ?H root = {}"
  proof (rule ccontr)
    assume "level1 ?H root \<inter> level2 ?H root \<noteq> {}"
    then obtain x where "x \<in> next_level ?H (refs_val root)" "x \<in> next_level ?H (level1 ?H root)"
      by (auto simp: level1_def level2_def)
    then have "refs_val root \<inter> level1 ?H root \<noteq> {}" using parent d l1 by blast
    then show False using noroot [OF d] by (auto simp: level1_def)
  qed
  have s13: "level1 ?H root \<inter> level3 ?H root = {}"
  proof (rule ccontr)
    assume "level1 ?H root \<inter> level3 ?H root \<noteq> {}"
    then obtain x where "x \<in> next_level ?H (refs_val root)" "x \<in> next_level ?H (level2 ?H root)"
      by (auto simp: level1_def level3_def)
    then have "refs_val root \<inter> level2 ?H root \<noteq> {}" using parent d l2 by blast
    then show False using r2 by simp
  qed
  have s23: "level2 ?H root \<inter> level3 ?H root = {}"
  proof (rule ccontr)
    assume "level2 ?H root \<inter> level3 ?H root \<noteq> {}"
    then obtain x where "x \<in> next_level ?H (level1 ?H root)" "x \<in> next_level ?H (level2 ?H root)"
      by (auto simp: level2_def level3_def)
    then have "level1 ?H root \<inter> level2 ?H root \<noteq> {}" using parent l1 l2 by blast
    then show False using s12 by simp
  qed
  show ?thesis unfolding separated_def using d l1 l2 l3 r2 r3 s12 s13 s23 by simp
qed

text \<open>Reading in a heap that agrees with the copy where the read looks.\<close>

lemma h_get_agree:
  assumes "agree_outside W h0 h" "refs_val x \<inter> W = {}"
  shows "h_get x k h = h_get x k h0"
  using assms by (cases x) (auto simp: agree_outside_def)

lemma h_computed_member_agree:
  assumes "agree_outside W h0 h" "refs_val x \<inter> W = {}"
  shows "h_computed_member x k h = h_computed_member x k h0"
  using assms by (cases x) (auto simp: agree_outside_def)

lemma map_of_refs:
  "map_of kvs k = Some v \<Longrightarrow> refs_val v \<subseteq> (\<Union>kv \<in> set kvs. refs_val (snd kv))"
  by (auto dest!: map_of_SomeD)

lemma h_get_refs:
  assumes "h_get x k h = Inr v"
  shows "refs_val v \<subseteq> next_level h (refs_val x)"
proof (cases x)
  case (HRef a)
  show ?thesis
  proof (cases "a < length h")
    case True
    show ?thesis
    proof (cases "h ! a")
      case (HObject kvs)
      show ?thesis
      proof (cases "map_of kvs k")
        case None
        then show ?thesis using assms HRef True HObject by auto
      next
        case (Some w)
        then have "v = w" using assms HRef True HObject by simp
        then show ?thesis using map_of_refs [OF Some] HRef True HObject
          by (auto simp: next_level_def refs_at_def)
      qed
    next
      case (HArray xs)
      then show ?thesis using assms HRef True by auto
    qed
  next
    case False
    then show ?thesis using assms HRef by simp
  qed
qed (use assms in auto)

lemma h_computed_member_refs:
  assumes "h_computed_member x k h = Inr (HValue v)"
  shows "refs_val v \<subseteq> next_level h (refs_val x)"
proof (cases x)
  case (HRef a)
  show ?thesis
  proof (cases "a < length h")
    case True
    show ?thesis
    proof (cases "h ! a")
      case (HObject kvs)
      show ?thesis
      proof (cases "map_of kvs k")
        case None
        then show ?thesis using assms HRef True HObject by (auto split: if_splits)
      next
        case (Some w)
        then have "v = w" using assms HRef True HObject by simp
        then show ?thesis using map_of_refs [OF Some] HRef True HObject
          by (auto simp: next_level_def refs_at_def)
      qed
    next
      case (HArray xs)
      then show ?thesis using assms HRef True by auto
    qed
  next
    case False
    then show ?thesis using assms HRef by simp
  qed
qed (use assms in auto)

text \<open>Writing where the heap may differ from the copy.\<close>

lemma agree_outside_update:
  assumes "agree_outside W h0 h" "a \<in> W"
  shows "agree_outside W h0 (h[a := obj])"
proof -
  have "h[a := obj] ! b = h0 ! b" if "b < length h0" "b \<notin> W" for b
  proof -
    have "b \<noteq> a" using that(2) assms(2) by auto
    then show ?thesis using assms(1) that by (simp add: agree_outside_def)
  qed
  then show ?thesis using assms(1) by (simp add: agree_outside_def)
qed

lemma h_push_agree:
  assumes "agree_outside W h0 h" "refs_val r \<subseteq> W"
  shows "agree_outside W h0 (fst (h_push r x h))"
  using assms by (cases r) (auto simp: agree_outside_update split: hobj.splits)

lemma h_computed_assign_agree:
  assumes "agree_outside W h0 h" "refs_val t \<subseteq> W"
  shows "agree_outside W h0 (fst (h_computed_assign t key x h))"
  using assms by (cases t) (auto simp: agree_outside_update split: hobj.splits sum.splits)

lemma h_delete_agree:
  assumes "agree_outside W h0 h" "refs_val t \<subseteq> W"
  shows "agree_outside W h0 (fst (h_delete t k h))"
  using assms by (cases t) (auto simp: agree_outside_update split: hobj.splits)

lemma agree_outside_mono:
  "agree_outside W h0 h \<Longrightarrow> W \<subseteq> W' \<Longrightarrow> agree_outside W' h0 h"
  by (auto simp: agree_outside_def)

lemma agree_outside_refl [simp]: "agree_outside W h h"
  by (simp add: agree_outside_def)

lemma h_bind_keeps:
  assumes "I (fst (m h))" "\<And>a h1. m h = (h1, Inr a) \<Longrightarrow> I h1 \<Longrightarrow> I (fst (f a h1))"
  shows "I (fst (h_bind m f h))"
proof (cases "m h")
  case (Pair h1 r)
  show ?thesis
  proof (cases r)
    case (Inl e)
    then show ?thesis using assms(1) Pair by (simp add: h_bind_def)
  next
    case (Inr a)
    then have "I (fst (f a h1))" using assms Pair by simp
    then show ?thesis using Pair Inr by (simp add: h_bind_def)
  qed
qed

lemma h_read_bind_keeps:
  assumes "I h" "\<And>a. g h = Inr a \<Longrightarrow> I (fst (f a h))"
  shows "I (fst (h_bind (h_read g) f h))"
  using assms by (cases "g h") (simp_all add: h_bind_def h_read_def)

lemma h_forEach_list_keeps:
  assumes "I h" "\<And>x h1. I h1 \<Longrightarrow> I (fst (f x h1))"
  shows "I (fst (h_forEach_list xs f h))"
  using assms(1)
proof (induction xs arbitrary: h)
  case Nil
  then show ?case by simp
next
  case (Cons x xs)
  show ?case unfolding h_forEach_list.simps
    by (rule h_bind_keeps) (use Cons assms(2) in auto)
qed

lemma h_forEach_keeps:
  assumes "I h" "\<And>x h1. I h1 \<Longrightarrow> I (fst (f x h1))"
  shows "I (fst (h_forEach v f h))"
  using assms by (cases v) (auto intro: h_forEach_list_keeps split: hobj.splits)

lemma h_bind_Inr: "m h = (h1, Inr a) \<Longrightarrow> h_bind m f h = f a h1"
  by (simp add: h_bind_def)

lemma next_level_mono: "A \<subseteq> B \<Longrightarrow> next_level h A \<subseteq> next_level h B"
  by (auto simp: next_level_def)

lemma member_in_level2:
  assumes sep: "separated n hA root" and defs: "refs_val defs \<subseteq> level1 hA root"
    and W: "W \<inter> level1 hA root = {}" and I: "agree_outside W hA h"
    and m: "h_computed_member defs k h = Inr (HValue v)"
  shows "refs_val v \<subseteq> level2 hA root"
proof -
  have "refs_val defs \<inter> W = {}" using defs W by auto
  then have "h_computed_member defs k hA = Inr (HValue v)"
    using h_computed_member_agree [OF I] m by simp
  then have "refs_val v \<subseteq> next_level hA (refs_val defs)" by (rule h_computed_member_refs)
  then show ?thesis using next_level_mono [OF defs] by (auto simp: level2_def)
qed

lemma get_in_level2:
  assumes defs: "refs_val d \<subseteq> level1 hA root"
    and W: "W \<inter> level1 hA root = {}" and I: "agree_outside W hA h"
    and m: "h_get d k h = Inr v"
  shows "refs_val v \<subseteq> level2 hA root"
proof -
  have "refs_val d \<inter> W = {}" using defs W by auto
  then have "h_get d k hA = Inr v" using h_get_agree [OF I] m by simp
  then have "refs_val v \<subseteq> next_level hA (refs_val d)" by (rule h_get_refs)
  then show ?thesis using next_level_mono [OF defs] by (auto simp: level2_def)
qed

lemma get_in_level3:
  assumes v: "refs_val v \<subseteq> level2 hA root"
    and W: "W \<inter> level2 hA root = {}" and I: "agree_outside W hA h"
    and r: "h_get v k h = Inr r"
  shows "refs_val r \<subseteq> level3 hA root"
proof -
  have "refs_val v \<inter> W = {}" using v W by auto
  then have "h_get v k hA = Inr r" using h_get_agree [OF I] r by simp
  then have "refs_val r \<subseteq> next_level hA (refs_val v)" by (rule h_get_refs)
  then show ?thesis using next_level_mono [OF v] by (auto simp: level3_def)
qed

lemma get_in_level1:
  assumes W: "W \<inter> refs_val root = {}" and I: "agree_outside W hA h"
    and r: "h_get root k h = Inr d"
  shows "refs_val d \<subseteq> level1 hA root"
proof -
  have "refs_val root \<inter> W = {}" using W by auto
  then have "h_get root k hA = Inr d" using h_get_agree [OF I] r by simp
  then have "refs_val d \<subseteq> next_level hA (refs_val root)" by (rule h_get_refs)
  then show ?thesis by (simp add: level1_def)
qed

lemma required_push_keeps:
  assumes sep: "separated n hA root" and defs: "refs_val defs \<subseteq> level1 hA root"
    and I: "agree_outside (level3 hA root) hA h"
  shows "agree_outside (level3 hA root) hA (fst (h_required_push defs k propKey h))"
  unfolding h_required_push_def
proof (rule h_read_bind_keeps [where I = "agree_outside (level3 hA root) hA", OF I])
  fix m assume m: "h_computed_member defs k h = Inr m"
  have W1: "level3 hA root \<inter> level1 hA root = {}" and W2: "level3 hA root \<inter> level2 hA root = {}"
    using sep by (auto simp: separated_def)
  show "agree_outside (level3 hA root) hA
          (fst ((case m of
                   HBuiltin \<Rightarrow> h_throw TypeError
                 | HValue HUndefined \<Rightarrow> h_done
                 | HValue HNull \<Rightarrow> h_done
                 | HValue v \<Rightarrow> h_bind (h_read (h_get v ''required'')) (\<lambda>r. h_push r propKey)) h))"
  proof (cases m)
    case HBuiltin
    then show ?thesis using I by (simp add: h_throw_def)
  next
    case (HValue v)
    have v2: "refs_val v \<subseteq> level2 hA root"
      using member_in_level2 [OF sep defs W1 I] m HValue by simp
    have push: "agree_outside (level3 hA root) hA
            (fst (h_bind (h_read (h_get v ''required'')) (\<lambda>r. h_push r propKey) h))"
    proof (rule h_read_bind_keeps [where I = "agree_outside (level3 hA root) hA", OF I])
      fix r assume "h_get v ''required'' h = Inr r"
      then have "refs_val r \<subseteq> level3 hA root" by (rule get_in_level3 [OF v2 W2 I])
      then show "agree_outside (level3 hA root) hA (fst (h_push r propKey h))"
        by (rule h_push_agree [OF I])
    qed
    show ?thesis using HValue I push by (cases v) (simp_all add: h_done_def)
  qed
qed

lemma properties_assign_keeps:
  assumes sep: "separated n hA root" and defs: "refs_val defs \<subseteq> level1 hA root"
    and I: "agree_outside (level3 hA root) hA h"
  shows "agree_outside (level3 hA root) hA (fst (h_properties_assign defs k propKey schema h))"
  unfolding h_properties_assign_def
proof (rule h_read_bind_keeps [where I = "agree_outside (level3 hA root) hA", OF I])
  fix m assume m: "h_computed_member defs k h = Inr m"
  have W1: "level3 hA root \<inter> level1 hA root = {}" and W2: "level3 hA root \<inter> level2 hA root = {}"
    using sep by (auto simp: separated_def)
  show "agree_outside (level3 hA root) hA
          (fst ((case m of
                   HBuiltin \<Rightarrow> h_throw TypeError
                 | HValue v \<Rightarrow>
                     h_bind (h_read (h_get v ''properties'')) (\<lambda>props.
                       h_computed_assign props propKey schema)) h))"
  proof (cases m)
    case HBuiltin
    then show ?thesis using I by (simp add: h_throw_def)
  next
    case (HValue v)
    have v2: "refs_val v \<subseteq> level2 hA root"
      using member_in_level2 [OF sep defs W1 I] m HValue by simp
    have "agree_outside (level3 hA root) hA
            (fst (h_bind (h_read (h_get v ''properties'')) (\<lambda>props.
                       h_computed_assign props propKey schema) h))"
    proof (rule h_read_bind_keeps [where I = "agree_outside (level3 hA root) hA", OF I])
      fix p assume "h_get v ''properties'' h = Inr p"
      then have "refs_val p \<subseteq> level3 hA root" by (rule get_in_level3 [OF v2 W2 I])
      then show "agree_outside (level3 hA root) hA (fst (h_computed_assign p propKey schema h))"
        by (rule h_computed_assign_agree [OF I])
    qed
    then show ?thesis using HValue by simp
  qed
qed

lemma restricted_callback_keeps:
  assumes sep: "separated n hA root" and defs: "refs_val defs \<subseteq> level1 hA root"
    and I: "agree_outside (level3 hA root) hA h"
  shows "agree_outside (level3 hA root) hA
           (fst (h_restricted_callback extension propKey schema defs metaSchemaKey h))"
  unfolding h_restricted_callback_def
proof (rule h_read_bind_keeps [where I = "agree_outside (level3 hA root) hA", OF I], rule h_read_bind_keeps [where I = "agree_outside (level3 hA root) hA", OF I])
  fix k m
  let ?I = "agree_outside (level3 hA root) hA"
  show "?I (fst ((if m = HValue HUndefined
            then h_bind (h_read (h_ToString propKey)) (\<lambda>p.
                   h_throw (Error (''Invalid meta schema key: '' @ k @ '' for openrpc extension '' @ p)))
            else h_bind (h_read (h_get extension ''required'')) (\<lambda>r.
                 h_bind (if r = HBool True then h_required_push defs k propKey else h_done) (\<lambda>u.
                   h_properties_assign defs k propKey schema))) h))"
  proof (cases "m = HValue HUndefined")
    case True
    have "?I (fst (h_bind (h_read (h_ToString propKey)) (\<lambda>p.
                   h_throw (Error (''Invalid meta schema key: '' @ k @ '' for openrpc extension '' @ p))) h))"
      by (rule h_read_bind_keeps [where I = "agree_outside (level3 hA root) hA", OF I]) (simp add: h_throw_def I)
    then show ?thesis using True by simp
  next
    case False
    have "?I (fst (h_bind (h_read (h_get extension ''required'')) (\<lambda>r.
                 h_bind (if r = HBool True then h_required_push defs k propKey else h_done) (\<lambda>u.
                   h_properties_assign defs k propKey schema)) h))"
    proof (rule h_read_bind_keeps [where I = "agree_outside (level3 hA root) hA", OF I], rule h_bind_keeps [where I = "agree_outside (level3 hA root) hA"])
      fix r
      show "?I (fst ((if r = HBool True then h_required_push defs k propKey else h_done) h))"
        using required_push_keeps [OF sep defs I] I by (simp add: h_done_def)
    next
      fix r u h1 assume "?I h1"
      then show "?I (fst (h_properties_assign defs k propKey schema h1))"
        by (rule properties_assign_keeps [OF sep defs])
    qed
    then show ?thesis using False by simp
  qed
qed

lemma extension_callback_keeps:
  assumes sep: "separated n hA root" and defs: "refs_val defs \<subseteq> level1 hA root"
    and I: "agree_outside (level3 hA root) hA h"
  shows "agree_outside (level3 hA root) hA (fst (h_extension_callback defs extension h))"
  unfolding h_extension_callback_def
proof (rule h_read_bind_keeps [where I = "agree_outside (level3 hA root) hA", OF I], rule h_read_bind_keeps [where I = "agree_outside (level3 hA root) hA", OF I], rule h_read_bind_keeps [where I = "agree_outside (level3 hA root) hA", OF I])
  fix propKey schema restricted
  show "agree_outside (level3 hA root) hA
          (fst (h_forEach restricted (h_restricted_callback extension propKey schema defs) h))"
    by (rule h_forEach_keeps [where I = "agree_outside (level3 hA root) hA", OF I]) (rule restricted_callback_keeps [OF sep defs])
qed

lemma applyExtensions_keeps:
  assumes copy: "fresh_copy (getMetaSchemaWithExtensionSchema E) h0 = (root, hA)"
    and sep: "separated n hA root"
  shows "agree_outside (level3 hA root) hA (fst (h_applyExtensionsToMetaSchema E document h0))
       \<and> (\<forall>v. snd (h_applyExtensionsToMetaSchema E document h0) = Inr v \<longrightarrow> v = root)"
proof -
  let ?I = "agree_outside (level3 hA root) hA"
  let ?rest = "\<lambda>extendedMetaSchema.
     h_bind (h_read (h_get extendedMetaSchema ''definitions'')) (\<lambda>defs.
     h_bind (h_read (h_get document ''x-extensions'')) (\<lambda>x.
       if x \<noteq> HUndefined then
         h_bind (h_forEach x (h_extension_callback defs)) (\<lambda>u. h_read (\<lambda>h. Inr extendedMetaSchema))
       else h_read (\<lambda>h. Inr extendedMetaSchema)))"
  have g: "h_getMetaSchemaWithExtensionSchema E h0 = (hA, Inr root)"
    using copy by (simp add: h_getMetaSchemaWithExtensionSchema_def)
  have e: "h_applyExtensionsToMetaSchema E document h0 = ?rest root hA"
    unfolding h_applyExtensionsToMetaSchema_def
    by (rule h_bind_Inr [where m = "h_getMetaSchemaWithExtensionSchema E" and h = h0, OF g])
  have I: "?I hA" by simp
  have W0: "level3 hA root \<inter> refs_val root = {}" using sep by (auto simp: separated_def)
  have 1: "?I (fst (?rest root hA))"
  proof (rule h_read_bind_keeps [where I = "agree_outside (level3 hA root) hA", OF I], rule h_read_bind_keeps [where I = "agree_outside (level3 hA root) hA", OF I])
    fix defs x assume d: "h_get root ''definitions'' hA = Inr defs"
    have defs: "refs_val defs \<subseteq> level1 hA root" by (rule get_in_level1 [OF W0 I d])
    have "?I (fst (h_bind (h_forEach x (h_extension_callback defs)) (\<lambda>u. h_read (\<lambda>h. Inr root)) hA))"
    proof (rule h_bind_keeps [where I = "agree_outside (level3 hA root) hA"])
      show "?I (fst (h_forEach x (h_extension_callback defs) hA))"
        by (rule h_forEach_keeps [where I = "agree_outside (level3 hA root) hA", OF I]) (rule extension_callback_keeps [OF sep defs])
    next
      fix a h1 assume "?I h1"
      then show "?I (fst (h_read (\<lambda>h. Inr root) h1))" by (simp add: h_read_def)
    qed
    then show "?I (fst ((if x \<noteq> HUndefined
              then h_bind (h_forEach x (h_extension_callback defs)) (\<lambda>u. h_read (\<lambda>h. Inr root))
              else h_read (\<lambda>h. Inr root)) hA))"
      using I by (simp add: h_read_def)
  qed
  have 2: "v = root" if "snd (?rest root hA) = Inr v" for v
    using that
    by (auto simp: h_bind_def h_read_def split: prod.splits sum.splits if_splits)
  from 1 2 e show ?thesis by simp
qed

lemma represents_append:
  "represents h v j \<Longrightarrow> represents (h @ ext) v j"
  "represents_list h vs js \<Longrightarrow> represents_list (h @ ext) vs js"
  "represents_fields h fs kjs \<Longrightarrow> represents_fields (h @ ext) fs kjs"
proof (induction h v j and h vs js and h fs kjs
    rule: represents_represents_list_represents_fields.induct)
  case (6 h v xs)
  then show ?case by (auto simp: nth_append split: hval.splits hobj.splits)
next
  case (7 h v kvs)
  then show ?case by (auto simp: nth_append split: hval.splits hobj.splits)
next
  case (9 h vs x xs)
  then show ?case by (auto split: list.splits)
next
  case (11 h fs kx kvs)
  then show ?case by (auto split: list.splits)
qed auto

lemma fresh_copy_represents:
  "fresh_copy j h = (v, h') \<Longrightarrow> represents h' v j"
  "fresh_copy_list js h = (vs, h') \<Longrightarrow> represents_list h' vs js"
  "fresh_copy_fields kjs h = (fs, h') \<Longrightarrow> represents_fields h' fs kjs"
proof (induction j h and js h and kjs h arbitrary: v h' and vs h' and fs h'
    rule: fresh_copy_fresh_copy_list_fresh_copy_fields.induct)
  case (6 xs h)
  obtain vs h1 where c: "fresh_copy_list xs h = (vs, h1)" by (cases "fresh_copy_list xs h")
  have "represents_list (h1 @ [HArray vs]) vs xs"
    using "6.IH" [OF c] by (rule represents_append)
  then show ?case using "6.prems" c by auto
next
  case (7 kvs h)
  obtain fs h1 where c: "fresh_copy_fields kvs h = (fs, h1)" by (cases "fresh_copy_fields kvs h")
  have "represents_fields (h1 @ [HObject fs]) fs kvs"
    using "7.IH" [OF c] by (rule represents_append)
  then show ?case using "7.prems" c by auto
next
  case (9 x xs h)
  obtain v1 h1 where c1: "fresh_copy x h = (v1, h1)" by (cases "fresh_copy x h")
  obtain vs1 h2 where c2: "fresh_copy_list xs h1 = (vs1, h2)" by (cases "fresh_copy_list xs h1")
  from fresh_copy_copied(2) [OF c2] obtain e2 where e2: "h2 = h1 @ e2" by blast
  have "represents h2 v1 x" using "9.IH"(1) [OF c1] e2 by (simp add: represents_append)
  moreover have "represents_list h2 vs1 xs" by (rule "9.IH"(2) [OF c1 [symmetric] c2])
  ultimately show ?case using "9.prems" c1 c2 by auto
next
  case (11 kx kvs h)
  obtain v1 h1 where c1: "fresh_copy (snd kx) h = (v1, h1)" by (cases "fresh_copy (snd kx) h")
  obtain fs1 h2 where c2: "fresh_copy_fields kvs h1 = (fs1, h2)" by (cases "fresh_copy_fields kvs h1")
  from fresh_copy_copied(3) [OF c2] obtain e2 where e2: "h2 = h1 @ e2" by blast
  have "represents h2 v1 (snd kx)" using "11.IH"(1) [OF c1] e2 by (simp add: represents_append)
  moreover have "represents_fields h2 fs1 kvs" by (rule "11.IH"(2) [OF c1 [symmetric] c2])
  ultimately show ?case using "11.prems" c1 c2 by auto
qed auto

lemma delete_JSONSchema_keeps:
  assumes sep: "separated n hA root"
    and I: "agree_outside (level2 hA root \<union> level3 hA root) hA h"
  shows "agree_outside (level2 hA root \<union> level3 hA root) hA (fst (h_delete_JSONSchema k root h))"
  unfolding h_delete_JSONSchema_def
proof (rule h_read_bind_keeps [where I = "agree_outside (level2 hA root \<union> level3 hA root) hA", OF I],
    rule h_read_bind_keeps [where I = "agree_outside (level2 hA root \<union> level3 hA root) hA", OF I])
  fix d j assume d: "h_get root ''definitions'' h = Inr d" and j: "h_get d ''JSONSchema'' h = Inr j"
  have W0: "(level2 hA root \<union> level3 hA root) \<inter> refs_val root = {}"
    and W1: "(level2 hA root \<union> level3 hA root) \<inter> level1 hA root = {}"
    using sep by (auto simp: separated_def)
  have "refs_val d \<subseteq> level1 hA root" by (rule get_in_level1 [OF W0 I d])
  then have "refs_val j \<subseteq> level2 hA root" using W1 I j by (rule get_in_level2)
  then have "refs_val j \<subseteq> level2 hA root \<union> level3 hA root" by auto
  then show "agree_outside (level2 hA root \<union> level3 hA root) hA (fst (h_delete j k h))"
    by (rule h_delete_agree [OF I])
qed

lemma validate_keeps:
  assumes copy: "fresh_copy (getMetaSchemaWithExtensionSchema E) h0 = (root, hA)"
    and sep: "separated n hA root"
  shows "agree_outside (refs_val root \<union> level2 hA root \<union> level3 hA root) hA
           (fst (h_validateOpenRPCDocument E engine document h0))
       \<and> (\<forall>s res. snd (h_validateOpenRPCDocument E engine document h0) = Inr (s, res) \<longrightarrow> s = root)"
proof -
  let ?W = "refs_val root \<union> level2 hA root \<union> level3 hA root"
  let ?I = "agree_outside ?W hA"
  let ?I2 = "agree_outside (level2 hA root \<union> level3 hA root) hA"
  let ?tail = "\<lambda>metaSchemaCopy.
     h_bind (h_delete_JSONSchema ''$id'' metaSchemaCopy) (\<lambda>u.
     h_bind (h_delete_JSONSchema ''$schema'' metaSchemaCopy) (\<lambda>u.
     h_bind (h_delete metaSchemaCopy ''$schema'') (\<lambda>u.
     h_bind (h_delete metaSchemaCopy ''$id'') (\<lambda>u.
     h_bind (h_read (\<lambda>h. engine h metaSchemaCopy document)) (\<lambda>errors.
       h_read (\<lambda>h. Inr (metaSchemaCopy,
         if errors \<noteq> [] then IsError (new_OpenRPCDocumentValidationError E errors)
         else IsTrue)))))))"
  note a = applyExtensions_keeps [OF copy sep, of document]
  have tail: "?I (fst (?tail root h1))" if h1: "agree_outside (level3 hA root) hA h1" for h1
  proof -
    have i2: "?I2 h1" using h1 by (rule agree_outside_mono) auto
    have d1: "?I2 (fst (h_delete_JSONSchema ''$id'' root h1))"
      by (rule delete_JSONSchema_keeps [OF sep i2])
    have rootW: "refs_val root \<subseteq> ?W" by auto
    show ?thesis
    proof (rule h_bind_keeps [where I = ?I])
      show "?I (fst (h_delete_JSONSchema ''$id'' root h1))"
        using d1 by (rule agree_outside_mono) auto
    next
      fix u h2 assume "h_delete_JSONSchema ''$id'' root h1 = (h2, Inr u)"
      then have i2': "?I2 h2" using d1 by simp
      have d2: "?I2 (fst (h_delete_JSONSchema ''$schema'' root h2))"
        by (rule delete_JSONSchema_keeps [OF sep i2'])
      show "?I (fst (h_bind (h_delete_JSONSchema ''$schema'' root) (\<lambda>u.
                 h_bind (h_delete root ''$schema'') (\<lambda>u.
                 h_bind (h_delete root ''$id'') (\<lambda>u.
                 h_bind (h_read (\<lambda>h. engine h root document)) (\<lambda>errors.
                   h_read (\<lambda>h. Inr (root,
                     if errors \<noteq> [] then IsError (new_OpenRPCDocumentValidationError E errors)
                     else IsTrue)))))) h2))"
      proof (rule h_bind_keeps [where I = ?I])
        show "?I (fst (h_delete_JSONSchema ''$schema'' root h2))"
          using d2 by (rule agree_outside_mono) auto
      next
        fix u h3 assume i3: "?I h3"
        show "?I (fst (h_bind (h_delete root ''$schema'') (\<lambda>u.
                 h_bind (h_delete root ''$id'') (\<lambda>u.
                 h_bind (h_read (\<lambda>h. engine h root document)) (\<lambda>errors.
                   h_read (\<lambda>h. Inr (root,
                     if errors \<noteq> [] then IsError (new_OpenRPCDocumentValidationError E errors)
                     else IsTrue))))) h3))"
        proof (rule h_bind_keeps [where I = ?I])
          show "?I (fst (h_delete root ''$schema'' h3))" by (rule h_delete_agree [OF i3 rootW])
        next
          fix u h4 assume i4: "?I h4"
          show "?I (fst (h_bind (h_delete root ''$id'') (\<lambda>u.
                 h_bind (h_read (\<lambda>h. engine h root document)) (\<lambda>errors.
                   h_read (\<lambda>h. Inr (root,
                     if errors \<noteq> [] then IsError (new_OpenRPCDocumentValidationError E errors)
                     else IsTrue)))) h4))"
          proof (rule h_bind_keeps [where I = ?I])
            show "?I (fst (h_delete root ''$id'' h4))" by (rule h_delete_agree [OF i4 rootW])
          next
            fix u h5 assume i5: "?I h5"
            show "?I (fst (h_bind (h_read (\<lambda>h. engine h root document)) (\<lambda>errors.
                   h_read (\<lambda>h. Inr (root,
                     if errors \<noteq> [] then IsError (new_OpenRPCDocumentValidationError E errors)
                     else IsTrue))) h5))"
              by (rule h_read_bind_keeps [where I = ?I, OF i5]) (simp add: h_read_def i5)
          qed
        qed
      qed
    qed
  qed
  have val: "s = root" if "snd (?tail root h1) = Inr (s, res)" for h1 s res
    using that by (auto simp: h_bind_def h_read_def split: prod.splits sum.splits if_splits)
  obtain h1 r1 where ap: "h_applyExtensionsToMetaSchema E document h0 = (h1, r1)"
    by (cases "h_applyExtensionsToMetaSchema E document h0")
  have i1: "agree_outside (level3 hA root) hA h1" using a ap by simp
  show ?thesis
  proof (cases r1)
    case (Inl e)
    then have "h_validateOpenRPCDocument E engine document h0 = (h1, Inl e)"
      using ap by (simp add: h_validateOpenRPCDocument_def h_bind_def)
    moreover have "?I h1" using i1 by (rule agree_outside_mono) auto
    ultimately show ?thesis by simp
  next
    case (Inr v)
    then have "v = root" using a ap by simp
    then have "h_validateOpenRPCDocument E engine document h0 = ?tail root h1"
      using ap Inr unfolding h_validateOpenRPCDocument_def
      by (simp add: h_bind_Inr [where m = "h_applyExtensionsToMetaSchema E document" and h = h0])
    then show ?thesis using tail [OF i1] val by simp
  qed
qed

lemma agree_outside_frame:
  assumes "agree_outside W (h @ ext) h'" "W \<subseteq> {length h ..< length h + length ext}"
  shows "take (length h) h' = h"
proof (rule nth_equalityI)
  show "length (take (length h) h') = length h" using assms(1) by (simp add: agree_outside_def)
next
  fix i assume "i < length (take (length h) h')"
  then have i: "i < length h" by simp
  then have "i \<notin> W" using assms(2) by auto
  then have "h' ! i = (h @ ext) ! i" using assms(1) i by (simp add: agree_outside_def)
  then show "take (length h) h' ! i = h ! i" using i by (simp add: nth_append)
qed

lemma validate_frame:
  assumes run: "h_validateOpenRPCDocument E engine document h = (h', r)"
  shows "take (length h) h' = h
       \<and> (\<forall>a res. r = Inr (HRef a, res) \<longrightarrow> length h \<le> a \<and> a < length h')"
proof -
  obtain root hA where copy: "fresh_copy (getMetaSchemaWithExtensionSchema E) h = (root, hA)"
    by (cases "fresh_copy (getMetaSchemaWithExtensionSchema E) h")
  from fresh_copy_copied(1) [OF copy] obtain ext where
    ext: "hA = h @ ext" "copied (length h) (refs_val root) ext" by blast
  have sep: "separated (length h) hA root" using ext by (simp add: copied_separated)
  let ?W = "refs_val root \<union> level2 hA root \<union> level3 hA root"
  from validate_keeps [OF copy sep, of engine document] run
  have I: "agree_outside ?W hA h'" and v: "\<forall>s res. r = Inr (s, res) \<longrightarrow> s = root" by simp_all
  have W: "?W \<subseteq> {length h ..< length h + length ext}"
    using sep ext(1) by (auto simp: separated_def)
  have 1: "take (length h) h' = h" using I W unfolding ext(1) by (rule agree_outside_frame)
  have len: "length h' = length h + length ext" using I ext(1) by (simp add: agree_outside_def)
  have 2: "length h \<le> a \<and> a < length h'" if "r = Inr (HRef a, res)" for a res
  proof -
    have "root = HRef a" using v that by simp
    then have "a \<in> ?W" by simp
    then show ?thesis using W len by auto
  qed
  from 1 2 show ?thesis by blast
qed

lemma represents_frame:
  assumes "take (length h) h' = h" "represents h v j"
  shows "represents h' v j"
proof -
  have "h' = h @ drop (length h) h'" using assms(1) by (metis append_take_drop_id)
  then show ?thesis using represents_append(1) [OF assms(2)] by metis
qed

text \<open>
  Claim C8, for the function \<^verbatim>\<open>getMetaSchemaWithExtensionSchema\<close> as the specification
  has it. A call of \<open>validateOpenRPCDocument\<close> changes no object that existed before the
  call, whether it returns or throws: the store after the call begins with the store before
  it, so every value stands for the JSON value it stood for (the document, the module's
  meta-schema, the schema of an earlier call). The call works on a copy of the base
  meta-schema that it allocates; the schema it gives to the engine is an object that did
  not exist before the call, and so is not the schema of any later call either.
\<close>

theorem validate_works_on_a_fresh_copy:
  assumes run: "h_validateOpenRPCDocument E engine document h = (h', r)"
  shows "take (length h) h' = h
       \<and> (\<forall>v j. represents h v j \<longrightarrow> represents h' v j)
       \<and> (\<forall>root hA. fresh_copy (getMetaSchemaWithExtensionSchema E) h = (root, hA) \<longrightarrow>
            represents hA root (getMetaSchemaWithExtensionSchema E))
       \<and> (\<forall>a res. r = Inr (HRef a, res) \<longrightarrow> length h \<le> a \<and> a < length h')
       \<and> (\<forall>a res document2 h2 a2 res2.
            r = Inr (HRef a, res)
          \<and> h_validateOpenRPCDocument E engine document2 h' = (h2, Inr (HRef a2, res2)) \<longrightarrow>
            a \<noteq> a2 \<and> take (length h') h2 = h')"
proof -
  note f = validate_frame [OF run]
  have 1: "take (length h) h' = h" using f by simp
  have 2: "\<forall>v j. represents h v j \<longrightarrow> represents h' v j"
    using represents_frame [OF 1] by blast
  have 3: "\<forall>root hA. fresh_copy (getMetaSchemaWithExtensionSchema E) h = (root, hA) \<longrightarrow>
            represents hA root (getMetaSchemaWithExtensionSchema E)"
    using fresh_copy_represents(1) by blast
  have 4: "\<forall>a res. r = Inr (HRef a, res) \<longrightarrow> length h \<le> a \<and> a < length h'" using f by simp
  have 5: "a \<noteq> a2 \<and> take (length h') h2 = h'"
    if "r = Inr (HRef a, res)"
      "h_validateOpenRPCDocument E engine document2 h' = (h2, Inr (HRef a2, res2))"
    for a res document2 h2 a2 res2
  proof -
    have "a < length h'" using 4 that(1) by simp
    moreover have "take (length h') h2 = h' \<and> length h' \<le> a2"
      using validate_frame [OF that(2)] by simp
    ultimately show ?thesis by simp
  qed
  from 1 2 3 4 5 show ?thesis by blast
qed

theorem validate_works_on_a_fresh_copy_witness:
  "take (length example_heap)
      (fst (h_validateOpenRPCDocument example_env example_engine (HRef 4) example_heap))
     = example_heap
   \<and> snd (h_validateOpenRPCDocument example_env example_engine (HRef 4) example_heap)
       = Inr (HRef 12, IsTrue)
   \<and> length example_heap \<le> 12
   \<and> represents example_heap (HRef 4)
       (JObj [(''openrpc'', JStr ''1.2.6''),
              (''x-extensions'', JArr [JObj [(''name'', JStr ''x-foo''),
                 (''schema'', JObj [(''type'', JStr ''string'')]),
                 (''restricted'', JArr [JStr ''MethodObject'']), (''required'', JBool True)]])])
   \<and> represents (fst (h_validateOpenRPCDocument example_env example_engine (HRef 4) example_heap))
       (HRef 4)
       (JObj [(''openrpc'', JStr ''1.2.6''),
              (''x-extensions'', JArr [JObj [(''name'', JStr ''x-foo''),
                 (''schema'', JObj [(''type'', JStr ''string'')]),
                 (''restricted'', JArr [JStr ''MethodObject'']), (''required'', JBool True)]])])"
proof -
  let ?run = "h_validateOpenRPCDocument example_env example_engine (HRef 4) example_heap"
  let ?doc = "JObj [(''openrpc'', JStr ''1.2.6''),
              (''x-extensions'', JArr [JObj [(''name'', JStr ''x-foo''),
                 (''schema'', JObj [(''type'', JStr ''string'')]),
                 (''restricted'', JArr [JStr ''MethodObject'']), (''required'', JBool True)]])]"
  have run: "?run = (fst ?run, snd ?run)" by simp
  note T = validate_works_on_a_fresh_copy [OF run]
  have r: "snd ?run = Inr (HRef 12, IsTrue)" by code_simp
  have d: "represents example_heap (HRef 4) ?doc" by code_simp
  have 1: "take (length example_heap) (fst ?run) = example_heap" using T by (rule conjunct1)
  have 3: "length example_heap \<le> 12"
    using T [THEN conjunct2, THEN conjunct2, THEN conjunct2, THEN conjunct1, rule_format, OF r]
    by simp
  have 4: "represents (fst ?run) (HRef 4) ?doc"
    using T [THEN conjunct2, THEN conjunct1, rule_format, OF d] .
  from 1 r 3 d 4 show ?thesis by (intro conjI)
qed

text \<open>
  On this store the schema that the engine is given stands for the value that the functions
  on values compute for the same document.
\<close>

lemma heap_run_agrees_with_values:
  "represents (fst (h_validateOpenRPCDocument example_env example_engine (HRef 4) example_heap))
     (HRef 12)
     (JObj [(''title'', JStr ''openrpcDocument''),
           (''definitions'', JObj
              [(''MethodObject'', JObj
                  [(''type'', JStr ''object''),
                   (''properties'', JObj [(''name'', JObj [(''type'', JStr ''string'')]),
                                          (''x-foo'', JObj [(''type'', JStr ''string'')])]),
                   (''required'', JArr [JStr ''name'', JStr ''x-foo''])]),
               (''tagObject'', JObj [(''type'', JStr ''object'')]),
               (''JSONSchema'', JObj [(''title'', JStr ''JSONSchema'')])])])
   \<and> andThen (applyExtensionsToMetaSchema example_env (document_with [example_extension]))
        cleanMetaSchemaForValidation =
     Inr (JObj [(''title'', JStr ''openrpcDocument''),
           (''definitions'', JObj
              [(''MethodObject'', JObj
                  [(''type'', JStr ''object''),
                   (''properties'', JObj [(''name'', JObj [(''type'', JStr ''string'')]),
                                          (''x-foo'', JObj [(''type'', JStr ''string'')])]),
                   (''required'', JArr [JStr ''name'', JStr ''x-foo''])]),
               (''tagObject'', JObj [(''type'', JStr ''object'')]),
               (''JSONSchema'', JObj [(''title'', JStr ''JSONSchema'')])])])"
  by code_simp

subsection \<open>The sanitizer\<close>

lemma delete_JSONSchema_Inr:
  assumes "delete_JSONSchema k S = Inr S'"
  shows "\<exists>kvs dk j j'. S = JObj kvs \<and> map_of kvs ''definitions'' = Some (JObj dk)
          \<and> map_of dk ''JSONSchema'' = Some j \<and> js_delete j k = Inr j'
          \<and> S' = JObj (AList.update ''definitions'' (JObj (AList.update ''JSONSchema'' j' dk)) kvs)"
proof -
  from assms obtain d where d: "get S ''definitions'' = Inr d"
    by (cases "get S ''definitions''") (auto simp: delete_JSONSchema_def)
  from assms d obtain j where j: "get d ''JSONSchema'' = Inr j"
    by (cases "get d ''JSONSchema''") (auto simp: delete_JSONSchema_def)
  from assms d j obtain j' where j': "js_delete j k = Inr j'"
    by (cases "js_delete j k") (auto simp: delete_JSONSchema_def)
  have jn: "j \<noteq> JUndefined" using j' by auto
  from j jn obtain dk where dk: "d = JObj dk" "map_of dk ''JSONSchema'' = Some j"
    by (cases d) (auto split: option.splits)
  from d dk obtain kvs where kvs: "S = JObj kvs" "map_of kvs ''definitions'' = Some (JObj dk)"
    by (cases S) (auto split: option.splits)
  show ?thesis using assms d j j' dk kvs by (auto simp: delete_JSONSchema_def)
qed

lemma delete_JSONSchema_JObj:
  assumes "map_of kvs ''definitions'' = Some (JObj dk)" "map_of dk ''JSONSchema'' = Some j"
    "js_delete j k = Inr j'"
  shows "delete_JSONSchema k (JObj kvs) =
           Inr (JObj (AList.update ''definitions'' (JObj (AList.update ''JSONSchema'' j' dk)) kvs))"
  using assms by (simp add: delete_JSONSchema_def)

lemma js_delete_twice:
  "js_delete j ''$id'' = Inr j1 \<Longrightarrow> js_delete j1 ''$schema'' = Inr (strip_identity j)"
  by (cases j) auto

lemma js_delete_nonnull:
  "j \<noteq> JUndefined \<Longrightarrow> j \<noteq> JNull \<Longrightarrow> \<exists>j1. js_delete j k = Inr j1"
  by (cases j) auto

lemma js_delete_Inr_nonnull:
  "js_delete j k = Inr j1 \<Longrightarrow> j \<noteq> JUndefined \<and> j \<noteq> JNull"
  by (cases j) auto

lemma strip_identity_nonnull:
  "j \<noteq> JUndefined \<Longrightarrow> j \<noteq> JNull \<Longrightarrow> strip_identity j \<noteq> JUndefined \<and> strip_identity j \<noteq> JNull"
  by (cases j) auto

lemma strip_identity_idem: "strip_identity (strip_identity j) = strip_identity j"
  by (cases j) (auto simp: AList.delete_idem AList.delete_twist)

lemma clean_JObj:
  assumes "map_of kvs ''definitions'' = Some (JObj dk)" "map_of dk ''JSONSchema'' = Some j"
    "j \<noteq> JUndefined" "j \<noteq> JNull"
  shows "cleanMetaSchemaForValidation (JObj kvs) = Inr (cleaned kvs dk j)"
proof -
  obtain j1 where j1: "js_delete j ''$id'' = Inr j1" using js_delete_nonnull assms by blast
  have j2: "js_delete j1 ''$schema'' = Inr (strip_identity j)" using j1 by (rule js_delete_twice)
  have s1: "delete_JSONSchema ''$id'' (JObj kvs) =
      Inr (JObj (AList.update ''definitions'' (JObj (AList.update ''JSONSchema'' j1 dk)) kvs))"
    using assms j1 by (simp add: delete_JSONSchema_JObj)
  have s2: "delete_JSONSchema ''$schema''
        (JObj (AList.update ''definitions'' (JObj (AList.update ''JSONSchema'' j1 dk)) kvs)) =
      Inr (JObj (AList.update ''definitions''
        (JObj (AList.update ''JSONSchema'' (strip_identity j) dk)) kvs))"
    using j2 by (simp add: delete_JSONSchema_def AList.update_conv')
  show ?thesis by (simp add: cleanMetaSchemaForValidation_def s1 s2 cleaned_def)
qed

lemma clean_Inr:
  assumes "cleanMetaSchemaForValidation S = Inr S'"
  shows "\<exists>kvs dk j. S = JObj kvs \<and> map_of kvs ''definitions'' = Some (JObj dk)
          \<and> map_of dk ''JSONSchema'' = Some j \<and> j \<noteq> JUndefined \<and> j \<noteq> JNull
          \<and> S' = cleaned kvs dk j"
proof -
  from assms obtain m1 where m1: "delete_JSONSchema ''$id'' S = Inr m1"
    by (cases "delete_JSONSchema ''$id'' S") (auto simp: cleanMetaSchemaForValidation_def)
  from delete_JSONSchema_Inr [OF m1] obtain kvs dk j j' where
    *: "S = JObj kvs" "map_of kvs ''definitions'' = Some (JObj dk)"
       "map_of dk ''JSONSchema'' = Some j" "js_delete j ''$id'' = Inr j'" by blast
  have jn: "j \<noteq> JUndefined \<and> j \<noteq> JNull" using *(4) by (rule js_delete_Inr_nonnull)
  have "cleanMetaSchemaForValidation S = Inr (cleaned kvs dk j)"
    using * jn by (simp add: clean_JObj)
  then show ?thesis using assms * jn by auto
qed

lemma cleaned_fixed:
  assumes "j \<noteq> JUndefined" "j \<noteq> JNull"
  shows "cleanMetaSchemaForValidation (cleaned kvs dk j) = Inr (cleaned kvs dk j)"
proof -
  let ?j = "strip_identity j"
  let ?dk = "AList.update ''JSONSchema'' ?j dk"
  let ?kvs = "AList.delete ''$id'' (AList.delete ''$schema''
                (AList.update ''definitions'' (JObj ?dk) kvs))"
  have a: "map_of ?kvs ''definitions'' = Some (JObj ?dk)"
    by (simp add: AList.update_conv')
  have b: "map_of ?dk ''JSONSchema'' = Some ?j" by (simp add: AList.update_conv')
  have c: "?j \<noteq> JUndefined" "?j \<noteq> JNull" using assms strip_identity_nonnull by blast+
  have "cleanMetaSchemaForValidation (JObj ?kvs) = Inr (cleaned ?kvs ?dk ?j)"
    using a b c by (rule clean_JObj)
  moreover have "cleaned ?kvs ?dk ?j = cleaned kvs dk j"
    unfolding cleaned_def strip_identity_idem
    by (simp add: AList.delete_update [symmetric] AList.delete_idem AList.delete_twist)
  ultimately show ?thesis by (simp add: cleaned_def)
qed

lemma cleaned_no_identity:
  assumes "j \<noteq> JUndefined" "j \<noteq> JNull"
  shows "get (cleaned kvs dk j) ''$id'' = Inr JUndefined"
    "get (cleaned kvs dk j) ''$schema'' = Inr JUndefined"
    "andThen (get (cleaned kvs dk j) ''definitions'')
       (\<lambda>d. andThen (get d ''JSONSchema'') (\<lambda>j. get j ''$id'')) = Inr JUndefined"
    "andThen (get (cleaned kvs dk j) ''definitions'')
       (\<lambda>d. andThen (get d ''JSONSchema'') (\<lambda>j. get j ''$schema'')) = Inr JUndefined"
  using assms by (cases j; simp add: cleaned_def AList.update_conv' AList.delete_conv')+

lemma js_delete_Inl: "js_delete v k = Inl e \<Longrightarrow> e = TypeError"
  by (cases v) auto

lemma andThen_Inl:
  assumes "andThen m f = Inl e"
  shows "m = Inl e \<or> (\<exists>x. m = Inr x \<and> f x = Inl e)"
  using assms by (cases m) auto

lemma delete_JSONSchema_Inl:
  assumes "delete_JSONSchema k S = Inl e"
  shows "e = TypeError"
proof -
  from andThen_Inl [OF assms [unfolded delete_JSONSchema_def]]
  consider "get S ''definitions'' = Inl e"
    | d where "andThen (get d ''JSONSchema'') (\<lambda>j.
         andThen (js_delete j k) (\<lambda>j'.
           Inr (set_own S ''definitions'' (set_own d ''JSONSchema'' j')))) = Inl e"
    by blast
  then show ?thesis
  proof cases
    case 1
    then show ?thesis by (rule get_Inl)
  next
    case 2
    from andThen_Inl [OF 2]
    consider "get d ''JSONSchema'' = Inl e"
      | j where "andThen (js_delete j k) (\<lambda>j'.
           Inr (set_own S ''definitions'' (set_own d ''JSONSchema'' j'))) = Inl e"
      by blast
    then show ?thesis
    proof cases
      case 1
      then show ?thesis by (rule get_Inl)
    next
      case 2
      from andThen_Inl [OF 2] have "js_delete j k = Inl e" by auto
      then show ?thesis by (rule js_delete_Inl)
    qed
  qed
qed

lemma clean_Inl:
  assumes "cleanMetaSchemaForValidation S = Inl e"
  shows "e = TypeError"
proof -
  from andThen_Inl [OF assms [unfolded cleanMetaSchemaForValidation_def]]
  consider "delete_JSONSchema ''$id'' S = Inl e"
    | m1 where "andThen (delete_JSONSchema ''$schema'' m1) (\<lambda>m2.
         andThen (js_delete m2 ''$schema'') (\<lambda>m3. js_delete m3 ''$id'')) = Inl e"
    by blast
  then show ?thesis
  proof cases
    case 1
    then show ?thesis by (rule delete_JSONSchema_Inl)
  next
    case 2
    from andThen_Inl [OF 2]
    consider "delete_JSONSchema ''$schema'' m1 = Inl e"
      | m2 where "andThen (js_delete m2 ''$schema'') (\<lambda>m3. js_delete m3 ''$id'') = Inl e"
      by blast
    then show ?thesis
    proof cases
      case 1
      then show ?thesis by (rule delete_JSONSchema_Inl)
    next
      case 2
      from andThen_Inl [OF 2]
      consider "js_delete m2 ''$schema'' = Inl e" | m3 where "js_delete m3 ''$id'' = Inl e"
        by blast
      then show ?thesis by cases (auto dest: js_delete_Inl)
    qed
  qed
qed

lemma has_JSONSchema_iff:
  "has_JSONSchema S \<longleftrightarrow>
     (\<exists>kvs dk j. S = JObj kvs \<and> map_of kvs ''definitions'' = Some (JObj dk)
        \<and> map_of dk ''JSONSchema'' = Some j \<and> j \<noteq> JUndefined \<and> j \<noteq> JNull)"
proof
  assume h: "has_JSONSchema S"
  then obtain j where j: "nested_JSONSchema S = Inr j" "j \<noteq> JUndefined" "j \<noteq> JNull"
    by (cases "nested_JSONSchema S") (auto simp: has_JSONSchema_def)
  from j(1) obtain d where d: "get S ''definitions'' = Inr d" "get d ''JSONSchema'' = Inr j"
    by (cases "get S ''definitions''") (auto simp: nested_JSONSchema_def)
  from d(2) j(2) obtain dk where dk: "d = JObj dk" "map_of dk ''JSONSchema'' = Some j"
    by (cases d) (auto split: option.splits)
  from d(1) dk(1) obtain kvs where "S = JObj kvs" "map_of kvs ''definitions'' = Some (JObj dk)"
    by (cases S) (auto split: option.splits)
  with dk j show "\<exists>kvs dk j. S = JObj kvs \<and> map_of kvs ''definitions'' = Some (JObj dk)
        \<and> map_of dk ''JSONSchema'' = Some j \<and> j \<noteq> JUndefined \<and> j \<noteq> JNull" by blast
next
  assume "\<exists>kvs dk j. S = JObj kvs \<and> map_of kvs ''definitions'' = Some (JObj dk)
        \<and> map_of dk ''JSONSchema'' = Some j \<and> j \<noteq> JUndefined \<and> j \<noteq> JNull"
  then show "has_JSONSchema S" by (auto simp: has_JSONSchema_def nested_JSONSchema_def)
qed

lemma andThen_assoc: "andThen (andThen m f) g = andThen m (\<lambda>x. andThen (f x) g)"
  by (cases m) auto

lemma cleaned_keeps_the_rest:
  "k \<noteq> ''$id'' \<Longrightarrow> k \<noteq> ''$schema'' \<Longrightarrow> k \<noteq> ''definitions'' \<Longrightarrow>
     get (cleaned kvs dk j) k = get (JObj kvs) k"
  "k \<noteq> ''JSONSchema'' \<Longrightarrow>
     andThen (get (cleaned kvs dk j) ''definitions'') (\<lambda>d. get d k) = get (JObj dk) k"
  "k \<noteq> ''$id'' \<Longrightarrow> k \<noteq> ''$schema'' \<Longrightarrow> j \<noteq> JUndefined \<Longrightarrow> j \<noteq> JNull \<Longrightarrow>
     andThen (nested_JSONSchema (cleaned kvs dk j)) (\<lambda>j'. get j' k) = get j k"
  by (cases j; simp add: cleaned_def nested_JSONSchema_def AList.update_conv' AList.delete_conv')+

text \<open>
  Claim C7. Sanitizing is idempotent: sanitizing the result of
  \<open>cleanMetaSchemaForValidation\<close> again gives the same result (and where the first
  application throws, so does the composition). The function returns exactly on the
  meta-schemas whose \<^verbatim>\<open>definitions.JSONSchema\<close> is neither \<^verbatim>\<open>undefined\<close> nor
  \<^verbatim>\<open>null\<close>, and throws a \<^verbatim>\<open>TypeError\<close> on all others. What it returns is the
  meta-schema it was given with four members deleted and nothing else changed: neither the
  root nor the nested definition \<^verbatim>\<open>JSONSchema\<close> has a member \<^verbatim>\<open>$id\<close> or \<^verbatim>\<open>$schema\<close>,
  every other member of the root, of \<^verbatim>\<open>definitions\<close> and of \<^verbatim>\<open>JSONSchema\<close> reads as
  before.
\<close>

theorem sanitize_idempotent:
  "andThen (cleanMetaSchemaForValidation S) cleanMetaSchemaForValidation
     = cleanMetaSchemaForValidation S
   \<and> (if has_JSONSchema S then \<exists>S'. cleanMetaSchemaForValidation S = Inr S'
       else cleanMetaSchemaForValidation S = Inl TypeError)
   \<and> (\<forall>kvs dk j. S = JObj kvs \<and> map_of kvs ''definitions'' = Some (JObj dk)
         \<and> map_of dk ''JSONSchema'' = Some j \<and> j \<noteq> JUndefined \<and> j \<noteq> JNull \<longrightarrow>
         cleanMetaSchemaForValidation S = Inr (cleaned kvs dk j))
   \<and> (\<forall>S'. cleanMetaSchemaForValidation S = Inr S' \<longrightarrow>
         get S' ''$id'' = Inr JUndefined \<and> get S' ''$schema'' = Inr JUndefined
       \<and> andThen (nested_JSONSchema S') (\<lambda>j. get j ''$id'') = Inr JUndefined
       \<and> andThen (nested_JSONSchema S') (\<lambda>j. get j ''$schema'') = Inr JUndefined
       \<and> (\<forall>k. k \<noteq> ''$id'' \<and> k \<noteq> ''$schema'' \<and> k \<noteq> ''definitions'' \<longrightarrow> get S' k = get S k)
       \<and> (\<forall>k. k \<noteq> ''JSONSchema'' \<longrightarrow>
             andThen (get S' ''definitions'') (\<lambda>d. get d k)
               = andThen (get S ''definitions'') (\<lambda>d. get d k))
       \<and> (\<forall>k. k \<noteq> ''$id'' \<and> k \<noteq> ''$schema'' \<longrightarrow>
             andThen (nested_JSONSchema S') (\<lambda>j. get j k)
               = andThen (nested_JSONSchema S) (\<lambda>j. get j k)))"
proof (intro conjI)
  show "andThen (cleanMetaSchemaForValidation S) cleanMetaSchemaForValidation
     = cleanMetaSchemaForValidation S"
  proof (cases "cleanMetaSchemaForValidation S")
    case (Inl e)
    then show ?thesis by simp
  next
    case (Inr S')
    from clean_Inr [OF Inr] obtain kvs dk j where
      *: "j \<noteq> JUndefined" "j \<noteq> JNull" "S' = cleaned kvs dk j" by blast
    have "cleanMetaSchemaForValidation S' = Inr S'" using * cleaned_fixed by simp
    then show ?thesis using Inr by simp
  qed
next
  show "if has_JSONSchema S then \<exists>S'. cleanMetaSchemaForValidation S = Inr S'
       else cleanMetaSchemaForValidation S = Inl TypeError"
  proof (cases "has_JSONSchema S")
    case True
    then obtain kvs dk j where "S = JObj kvs" "map_of kvs ''definitions'' = Some (JObj dk)"
      "map_of dk ''JSONSchema'' = Some j" "j \<noteq> JUndefined" "j \<noteq> JNull"
      unfolding has_JSONSchema_iff by blast
    then have "cleanMetaSchemaForValidation S = Inr (cleaned kvs dk j)"
      by (simp add: clean_JObj)
    with True show ?thesis by simp
  next
    case False
    have "cleanMetaSchemaForValidation S = Inl TypeError"
    proof (cases "cleanMetaSchemaForValidation S")
      case (Inl e)
      then show ?thesis using clean_Inl by blast
    next
      case (Inr S')
      from clean_Inr [OF Inr] have "has_JSONSchema S" unfolding has_JSONSchema_iff by blast
      with False show ?thesis by simp
    qed
    with False show ?thesis by simp
  qed
next
  show "\<forall>kvs dk j. S = JObj kvs \<and> map_of kvs ''definitions'' = Some (JObj dk)
         \<and> map_of dk ''JSONSchema'' = Some j \<and> j \<noteq> JUndefined \<and> j \<noteq> JNull \<longrightarrow>
         cleanMetaSchemaForValidation S = Inr (cleaned kvs dk j)"
    by (simp add: clean_JObj)
next
  show "\<forall>S'. cleanMetaSchemaForValidation S = Inr S' \<longrightarrow>
         get S' ''$id'' = Inr JUndefined \<and> get S' ''$schema'' = Inr JUndefined
       \<and> andThen (nested_JSONSchema S') (\<lambda>j. get j ''$id'') = Inr JUndefined
       \<and> andThen (nested_JSONSchema S') (\<lambda>j. get j ''$schema'') = Inr JUndefined
       \<and> (\<forall>k. k \<noteq> ''$id'' \<and> k \<noteq> ''$schema'' \<and> k \<noteq> ''definitions'' \<longrightarrow> get S' k = get S k)
       \<and> (\<forall>k. k \<noteq> ''JSONSchema'' \<longrightarrow>
             andThen (get S' ''definitions'') (\<lambda>d. get d k)
               = andThen (get S ''definitions'') (\<lambda>d. get d k))
       \<and> (\<forall>k. k \<noteq> ''$id'' \<and> k \<noteq> ''$schema'' \<longrightarrow>
             andThen (nested_JSONSchema S') (\<lambda>j. get j k)
               = andThen (nested_JSONSchema S) (\<lambda>j. get j k))"
  proof (intro allI impI)
    fix S' assume r: "cleanMetaSchemaForValidation S = Inr S'"
    from clean_Inr [OF r] obtain kvs dk j where
      *: "S = JObj kvs" "map_of kvs ''definitions'' = Some (JObj dk)"
         "map_of dk ''JSONSchema'' = Some j" "j \<noteq> JUndefined" "j \<noteq> JNull"
         "S' = cleaned kvs dk j" by blast
    have n: "nested_JSONSchema S = Inr j" "get S ''definitions'' = Inr (JObj dk)"
      using * by (simp_all add: nested_JSONSchema_def)
    have a: "get S' ''$id'' = Inr JUndefined" "get S' ''$schema'' = Inr JUndefined"
      using cleaned_no_identity(1,2) [OF *(4,5)] *(6) by simp_all
    have b: "andThen (nested_JSONSchema S') (\<lambda>j. get j ''$id'') = Inr JUndefined"
      "andThen (nested_JSONSchema S') (\<lambda>j. get j ''$schema'') = Inr JUndefined"
      using cleaned_no_identity(3,4) [OF *(4,5), of kvs dk] *(6)
      by (simp_all add: nested_JSONSchema_def andThen_assoc)
    have c: "\<forall>k. k \<noteq> ''$id'' \<and> k \<noteq> ''$schema'' \<and> k \<noteq> ''definitions'' \<longrightarrow> get S' k = get S k"
      using cleaned_keeps_the_rest(1) [of _ kvs dk j] *(1,6) by simp
    have d: "\<forall>k. k \<noteq> ''JSONSchema'' \<longrightarrow>
             andThen (get S' ''definitions'') (\<lambda>d. get d k)
               = andThen (get S ''definitions'') (\<lambda>d. get d k)"
      using cleaned_keeps_the_rest(2) [of _ kvs dk j] *(6) n(2) by simp
    have e: "\<forall>k. k \<noteq> ''$id'' \<and> k \<noteq> ''$schema'' \<longrightarrow>
             andThen (nested_JSONSchema S') (\<lambda>j. get j k)
               = andThen (nested_JSONSchema S) (\<lambda>j. get j k)"
      using cleaned_keeps_the_rest(3) [of _ j kvs dk] *(4,5,6) n(1) by simp
    show "get S' ''$id'' = Inr JUndefined \<and> get S' ''$schema'' = Inr JUndefined
       \<and> andThen (nested_JSONSchema S') (\<lambda>j. get j ''$id'') = Inr JUndefined
       \<and> andThen (nested_JSONSchema S') (\<lambda>j. get j ''$schema'') = Inr JUndefined
       \<and> (\<forall>k. k \<noteq> ''$id'' \<and> k \<noteq> ''$schema'' \<and> k \<noteq> ''definitions'' \<longrightarrow> get S' k = get S k)
       \<and> (\<forall>k. k \<noteq> ''JSONSchema'' \<longrightarrow>
             andThen (get S' ''definitions'') (\<lambda>d. get d k)
               = andThen (get S ''definitions'') (\<lambda>d. get d k))
       \<and> (\<forall>k. k \<noteq> ''$id'' \<and> k \<noteq> ''$schema'' \<longrightarrow>
             andThen (nested_JSONSchema S') (\<lambda>j. get j k)
               = andThen (nested_JSONSchema S) (\<lambda>j. get j k))"
      using a b c d e by (intro conjI)
  qed
qed

theorem sanitize_idempotent_witness:
  "has_JSONSchema example_metaSchema
   \<and> cleanMetaSchemaForValidation example_metaSchema = Inr example_cleaned
   \<and> cleanMetaSchemaForValidation example_cleaned = Inr example_cleaned
   \<and> get example_cleaned ''$id'' = Inr JUndefined
   \<and> get example_cleaned ''$schema'' = Inr JUndefined
   \<and> andThen (nested_JSONSchema example_cleaned) (\<lambda>j. get j ''$id'') = Inr JUndefined
   \<and> andThen (nested_JSONSchema example_cleaned) (\<lambda>j. get j ''$schema'') = Inr JUndefined
   \<and> get example_cleaned ''title'' = get example_metaSchema ''title''
   \<and> andThen (get example_cleaned ''definitions'') (\<lambda>d. get d ''MethodObject'')
       = andThen (get example_metaSchema ''definitions'') (\<lambda>d. get d ''MethodObject'')
   \<and> andThen (nested_JSONSchema example_cleaned) (\<lambda>j. get j ''title'')
       = andThen (nested_JSONSchema example_metaSchema) (\<lambda>j. get j ''title'')
   \<and> \<not> has_JSONSchema (JObj [(''definitions'', JObj [])])
   \<and> cleanMetaSchemaForValidation (JObj [(''definitions'', JObj [])]) = Inl TypeError"
proof -
  let ?kvs = "[(''$schema'', JStr ''https://meta.json-schema.tools/''),
               (''$id'', JStr ''https://meta.open-rpc.org/''),
               (''title'', JStr ''openrpcDocument''),
               (''definitions'', JObj example_definitions)]"
  let ?j = "JObj [(''$schema'', JStr ''https://meta.json-schema.tools/''),
                  (''$id'', JStr ''https://meta.json-schema.tools/''),
                  (''title'', JStr ''JSONSchema'')]"
  note T = sanitize_idempotent [of example_metaSchema]
  note N = sanitize_idempotent [of "JObj [(''definitions'', JObj [])]"]
  have h: "has_JSONSchema example_metaSchema" by code_simp
  have s1: "example_metaSchema = JObj ?kvs" by (simp add: example_metaSchema_def)
  have s2: "map_of ?kvs ''definitions'' = Some (JObj example_definitions)" by simp
  have s3: "map_of example_definitions ''JSONSchema'' = Some ?j"
    by (simp add: example_definitions_def)
  have s4: "?j \<noteq> JUndefined" "?j \<noteq> JNull" by simp_all
  have c: "cleaned ?kvs example_definitions ?j = example_cleaned" by code_simp
  have "cleanMetaSchemaForValidation example_metaSchema
          = Inr (cleaned ?kvs example_definitions ?j)"
  proof (rule T [THEN conjunct2, THEN conjunct2, THEN conjunct1, rule_format,
                 of ?kvs example_definitions ?j])
    from s1 s2 s3 s4
    show "example_metaSchema = JObj ?kvs
        \<and> map_of ?kvs ''definitions'' = Some (JObj example_definitions)
        \<and> map_of example_definitions ''JSONSchema'' = Some ?j
        \<and> ?j \<noteq> JUndefined \<and> ?j \<noteq> JNull" by (intro conjI)
  qed
  then have e: "cleanMetaSchemaForValidation example_metaSchema = Inr example_cleaned"
    unfolding c .
  have i: "cleanMetaSchemaForValidation example_cleaned = Inr example_cleaned"
    using T [THEN conjunct1] e by simp
  note R = T [THEN conjunct2, THEN conjunct2, THEN conjunct2, rule_format, OF e]
  have r1: "get example_cleaned ''$id'' = Inr JUndefined" by (rule R [THEN conjunct1])
  have r2: "get example_cleaned ''$schema'' = Inr JUndefined"
    by (rule R [THEN conjunct2, THEN conjunct1])
  have r3: "andThen (nested_JSONSchema example_cleaned) (\<lambda>j. get j ''$id'') = Inr JUndefined"
    by (rule R [THEN conjunct2, THEN conjunct2, THEN conjunct1])
  have r4: "andThen (nested_JSONSchema example_cleaned) (\<lambda>j. get j ''$schema'') = Inr JUndefined"
    by (rule R [THEN conjunct2, THEN conjunct2, THEN conjunct2, THEN conjunct1])
  have r5: "get example_cleaned ''title'' = get example_metaSchema ''title''"
    using R [THEN conjunct2, THEN conjunct2, THEN conjunct2, THEN conjunct2, THEN conjunct1,
             rule_format, of "''title''"] by simp
  have r6: "andThen (get example_cleaned ''definitions'') (\<lambda>d. get d ''MethodObject'')
       = andThen (get example_metaSchema ''definitions'') (\<lambda>d. get d ''MethodObject'')"
    using R [THEN conjunct2, THEN conjunct2, THEN conjunct2, THEN conjunct2, THEN conjunct2,
             THEN conjunct1, rule_format, of "''MethodObject''"] by simp
  have r7: "andThen (nested_JSONSchema example_cleaned) (\<lambda>j. get j ''title'')
       = andThen (nested_JSONSchema example_metaSchema) (\<lambda>j. get j ''title'')"
    using R [THEN conjunct2, THEN conjunct2, THEN conjunct2, THEN conjunct2, THEN conjunct2,
             THEN conjunct2, rule_format, of "''title''"] by simp
  have nh: "\<not> has_JSONSchema (JObj [(''definitions'', JObj [])])" by code_simp
  have n: "cleanMetaSchemaForValidation (JObj [(''definitions'', JObj [])]) = Inl TypeError"
    using N [THEN conjunct2, THEN conjunct1] nh by simp
  from h e i r1 r2 r3 r4 r5 r6 r7 nh n show ?thesis by (intro conjI)
qed

subsection \<open>The validator\<close>

lemma validate_sanitizes:
  "validateOpenRPCDocument E document =
     (case andThen (applyExtensionsToMetaSchema E document) cleanMetaSchemaForValidation of
        Inl e \<Rightarrow> ([], Inl e)
      | Inr metaSchemaCopy \<Rightarrow>
          ([Call_ajv_validate metaSchemaCopy document],
           case ajv_validate E metaSchemaCopy document of
             Inl e \<Rightarrow> Inl e
           | Inr errors \<Rightarrow>
               if errors \<noteq> [] then Inr (IsError (new_OpenRPCDocumentValidationError E errors))
               else Inr IsTrue))"
  unfolding validateOpenRPCDocument_def cleanMetaSchemaForValidation_def
  by (cases "applyExtensionsToMetaSchema E document") simp_all

text \<open>
  Claim C4. \<open>validateOpenRPCDocument\<close> returns \<^verbatim>\<open>true\<close> exactly when the engine, run on
  the sanitized meta-schema with the extensions and on the document, reports no
  violation; and it returns an \<^verbatim>\<open>OpenRPCDocumentValidationError\<close> exactly when the engine
  reports a list of violations, and the message of the error is then the two heading lines
  followed by the serialization of that whole list, in its order.
\<close>

theorem validate_true_iff_no_violations:
  "(snd (validateOpenRPCDocument E document) = Inr IsTrue \<longleftrightarrow>
      (\<exists>S. andThen (applyExtensionsToMetaSchema E document) cleanMetaSchemaForValidation = Inr S
          \<and> ajv_validate E S document = Inr []))
 \<and> (snd (validateOpenRPCDocument E document) = Inr (IsError err) \<longleftrightarrow>
      (\<exists>S errors. andThen (applyExtensionsToMetaSchema E document) cleanMetaSchemaForValidation = Inr S
          \<and> ajv_validate E S document = Inr errors \<and> errors \<noteq> []
          \<and> err = \<lparr> name = ''OpenRPCDocumentDereferencingError'',
                     message = ''Error validating OpenRPC Document against @open-rpc/meta-schema.''
                        @ [CHR 0x0A] @ ''The errors found are as follows:''
                        @ [CHR 0x0A] @ JSON_stringify E (JArr errors) \<rparr>))"
  unfolding validate_sanitizes
  by (auto simp: new_OpenRPCDocumentValidationError_def join_def split: sum.splits)

text \<open>
  Claim C9. The error that \<open>validateOpenRPCDocument\<close> builds for a document that fails
  validation does not name itself a validation error: the field \<^verbatim>\<open>name\<close> of every
  \<^verbatim>\<open>OpenRPCDocumentValidationError\<close> is the string \<^verbatim>\<open>OpenRPCDocumentDereferencingError\<close>.
\<close>

theorem validation_error_names_itself_dereferencing:
  "name (new_OpenRPCDocumentValidationError E errors) = ''OpenRPCDocumentDereferencingError''
   \<and> snd (validateOpenRPCDocument example_env (JObj [])) =
       Inr (IsError \<lparr> name = ''OpenRPCDocumentDereferencingError'',
                      message = ''Error validating OpenRPC Document against @open-rpc/meta-schema.''
                        @ [CHR 0x0A] @ ''The errors found are as follows:''
                        @ [CHR 0x0A] @ ''[...]'' \<rparr>)"
proof -
  have "snd (validateOpenRPCDocument example_env (JObj [])) =
       Inr (IsError \<lparr> name = ''OpenRPCDocumentDereferencingError'',
                      message = ''Error validating OpenRPC Document against @open-rpc/meta-schema.''
                        @ [CHR 0x0A] @ ''The errors found are as follows:''
                        @ [CHR 0x0A] @ ''[...]'' \<rparr>)"
    by code_simp
  then show ?thesis by (simp add: new_OpenRPCDocumentValidationError_def)
qed

subsection \<open>The pipeline\<close>

lemma acquire_no_dereference: "Call_dereference x \<notin> set (fst (acquire E schema))"
  by (auto simp: acquire_def split: json.splits sum.splits option.splits)

lemma validate_no_dereference: "Call_dereference x \<notin> set (fst (validateOpenRPCDocument E d))"
  by (auto simp: validateOpenRPCDocument_def split: sum.splits)

lemma invalid_document_rejected:
  assumes "acquire E (if arg = JUndefined then JStr ''./openrpc.json'' else arg) = (c1, Inr d)"
    and "snd (validateOpenRPCDocument E d) = Inr (IsError e)"
  shows "snd (parseOpenRPCDocument E arg) = Inl (ThrownValidationError e)
       \<and> (\<forall>x. Call_dereference x \<notin> set (fst (parseOpenRPCDocument E arg)))"
proof -
  obtain c2 where v: "validateOpenRPCDocument E d = (c2, Inr (IsError e))"
    using assms(2) by (cases "validateOpenRPCDocument E d") simp
  have p: "parseOpenRPCDocument E arg = (c1 @ c2, Inl (ThrownValidationError e))"
    using assms(1) v by (simp add: parseOpenRPCDocument_def)
  have "Call_dereference x \<notin> set c1" for x
    using acquire_no_dereference [of x E "if arg = JUndefined then JStr ''./openrpc.json'' else arg"]
      assms(1) by simp
  moreover have "Call_dereference x \<notin> set c2" for x
    using validate_no_dereference [of x E d] v by simp
  ultimately show ?thesis using p by simp
qed

lemma dereference_only_after_valid:
  assumes "Call_dereference x \<in> set (fst (parseOpenRPCDocument E arg))"
  shows "\<exists>c1 c2. acquire E (if arg = JUndefined then JStr ''./openrpc.json'' else arg) = (c1, Inr x)
        \<and> validateOpenRPCDocument E x = (c2, Inr IsTrue)
        \<and> fst (parseOpenRPCDocument E arg) = c1 @ c2 @ [Call_dereference x]"
proof -
  let ?s = "if arg = JUndefined then JStr ''./openrpc.json'' else arg"
  obtain c1 r1 where a: "acquire E ?s = (c1, r1)" by (cases "acquire E ?s")
  have n1: "Call_dereference x \<notin> set c1" using acquire_no_dereference [of x E ?s] a by simp
  show ?thesis
  proof (cases r1)
    case (Inl e)
    then have "parseOpenRPCDocument E arg = (c1, Inl e)"
      using a by (simp add: parseOpenRPCDocument_def)
    then show ?thesis using assms n1 by simp
  next
    case (Inr d)
    obtain c2 r2 where v: "validateOpenRPCDocument E d = (c2, r2)"
      by (cases "validateOpenRPCDocument E d")
    have n2: "Call_dereference x \<notin> set c2" using validate_no_dereference [of x E d] v by simp
    show ?thesis
    proof (cases r2)
      case (Inl e)
      then have "parseOpenRPCDocument E arg = (c1 @ c2, Inl e)"
        using a Inr v by (simp add: parseOpenRPCDocument_def)
      then show ?thesis using assms n1 n2 by simp
    next
      case r: (Inr res)
      show ?thesis
      proof (cases res)
        case IsTrue
        then have "fst (parseOpenRPCDocument E arg) = c1 @ c2 @ [Call_dereference d]"
          using a Inr v r by (simp add: parseOpenRPCDocument_def)
        then show ?thesis using assms n1 n2 a Inr v r IsTrue by auto
      next
        case (IsError e)
        then have "parseOpenRPCDocument E arg = (c1 @ c2, Inl (ThrownValidationError e))"
          using a Inr v r by (simp add: parseOpenRPCDocument_def)
        then show ?thesis using assms n1 n2 by simp
      qed
    qed
  qed
qed

text \<open>
  Claim C3. When the document that \<open>parseOpenRPCDocument\<close> has acquired fails
  validation, the promise is rejected with the \<^verbatim>\<open>OpenRPCDocumentValidationError\<close> that
  \<open>validateOpenRPCDocument\<close> returned, and \<^verbatim>\<open>refParser.dereference\<close> is not called. A
  call of \<^verbatim>\<open>refParser.dereference\<close> is the last call, made on the acquired document after
  \<open>validateOpenRPCDocument\<close> has returned \<^verbatim>\<open>true\<close> for it.
\<close>

theorem validation_gate_blocks_dereferencing:
  "(\<forall>c1 d e.
      acquire E (if arg = JUndefined then JStr ''./openrpc.json'' else arg) = (c1, Inr d)
      \<and> snd (validateOpenRPCDocument E d) = Inr (IsError e) \<longrightarrow>
        snd (parseOpenRPCDocument E arg) = Inl (ThrownValidationError e)
      \<and> (\<forall>x. Call_dereference x \<notin> set (fst (parseOpenRPCDocument E arg))))
   \<and> (\<forall>x. Call_dereference x \<in> set (fst (parseOpenRPCDocument E arg)) \<longrightarrow>
        (\<exists>c1 c2.
            acquire E (if arg = JUndefined then JStr ''./openrpc.json'' else arg) = (c1, Inr x)
          \<and> validateOpenRPCDocument E x = (c2, Inr IsTrue)
          \<and> fst (parseOpenRPCDocument E arg) = c1 @ c2 @ [Call_dereference x]))"
  using invalid_document_rejected [of E arg] dereference_only_after_valid [of _ E arg]
  by blast

theorem validation_gate_blocks_dereferencing_witness:
  "acquire example_env (JObj []) = ([], Inr (JObj []))
   \<and> snd (validateOpenRPCDocument example_env (JObj [])) =
       Inr (IsError (new_OpenRPCDocumentValidationError example_env [example_violation]))
   \<and> snd (parseOpenRPCDocument example_env (JObj [])) =
       Inl (ThrownValidationError
              (new_OpenRPCDocumentValidationError example_env [example_violation]))
   \<and> (\<forall>x. Call_dereference x \<notin> set (fst (parseOpenRPCDocument example_env (JObj []))))"
proof -
  have a: "acquire example_env (if JObj [] = JUndefined then JStr ''./openrpc.json'' else JObj [])
             = ([], Inr (JObj []))"
    by code_simp
  have v: "snd (validateOpenRPCDocument example_env (JObj [])) =
       Inr (IsError (new_OpenRPCDocumentValidationError example_env [example_violation]))"
    by code_simp
  note g = validation_gate_blocks_dereferencing [of example_env "JObj []", THEN conjunct1,
      rule_format, OF conjI [OF a v]]
  have a': "acquire example_env (JObj []) = ([], Inr (JObj []))" using a by simp
  from a' v g [THEN conjunct1] g [THEN conjunct2] show ?thesis by (intro conjI)
qed

text \<open>
  Claim C6. When the acquired document is valid and \<^verbatim>\<open>refParser.dereference\<close> rejects
  with an error of message \<open>m\<close>, \<open>parseOpenRPCDocument\<close> rejects with an
  \<^verbatim>\<open>OpenRPCDocumentDereferencingError\<close> whose message ends with \<open>m\<close>; when the
  dereferencer resolves, \<open>parseOpenRPCDocument\<close> resolves to the same document.
\<close>

theorem dereferencing_failure_is_wrapped:
  assumes "acquire E (if arg = JUndefined then JStr ''./openrpc.json'' else arg) = (c1, Inr d)"
    and "snd (validateOpenRPCDocument E d) = Inr IsTrue"
  shows "(\<forall>m. dereference E d = Inl m \<longrightarrow>
            snd (parseOpenRPCDocument E arg) =
              Inl (DereferencingError
                (''The json schema provided cannot be dereferenced. Received Error: ''
                   @ [CHR 0x0A] @ '' '' @ m)))
       \<and> (\<forall>r. dereference E d = Inr r \<longrightarrow> snd (parseOpenRPCDocument E arg) = Inr r)"
proof -
  obtain c2 where v: "validateOpenRPCDocument E d = (c2, Inr IsTrue)"
    using assms(2) by (cases "validateOpenRPCDocument E d") simp
  show ?thesis using assms(1) v
    by (simp add: parseOpenRPCDocument_def new_OpenRPCDocumentDereferencingError_def)
qed

theorem dereferencing_failure_is_wrapped_witness:
  "snd (parseOpenRPCDocument example_env (JObj [(''info'', JObj [])])) =
     Inl (DereferencingError
       (''The json schema provided cannot be dereferenced. Received Error: ''
          @ [CHR 0x0A] @ '' '' @ ''no methods''))
   \<and> snd (parseOpenRPCDocument example_env example_document) = Inr example_document"
proof -
  let ?d = "JObj [(''info'', JObj [])]"
  have a1: "acquire example_env (if ?d = JUndefined then JStr ''./openrpc.json'' else ?d)
              = ([], Inr ?d)"
    by code_simp
  have v1: "snd (validateOpenRPCDocument example_env ?d) = Inr IsTrue" by code_simp
  have d1: "dereference example_env ?d = Inl ''no methods''" by code_simp
  have a2: "acquire example_env
              (if example_document = JUndefined then JStr ''./openrpc.json'' else example_document)
              = ([], Inr example_document)"
    by code_simp
  have v2: "snd (validateOpenRPCDocument example_env example_document) = Inr IsTrue"
    by code_simp
  have d2: "dereference example_env example_document = Inr example_document" by code_simp
  from dereferencing_failure_is_wrapped [OF a1 v1] d1
    dereferencing_failure_is_wrapped [OF a2 v2] d2
  show ?thesis by blast
qed

text \<open>
  Claim C5. The document is found in this order: an argument that is not a string is the
  document; a string that \<^verbatim>\<open>JSON.parse\<close> accepts is parsed; a string that \<^verbatim>\<open>isUrl\<close>
  accepts is given to \<open>fetchUrlSchemaFile\<close>; any other string is given to
  \<open>readSchemaFromFile\<close> as a path (after \<^verbatim>\<open>pathExists\<close>, whose answer is not used).
  Without an argument the string is \<^verbatim>\<open>./openrpc.json\<close>. The calls of
  \<open>parseOpenRPCDocument\<close> begin with those of this step, and its failure is the failure of
  \<open>parseOpenRPCDocument\<close>.
\<close>

theorem acquisition_precedence:
  "((\<forall>s. schema \<noteq> JStr s) \<longrightarrow> acquire E schema = ([], Inr schema))
   \<and> (\<forall>s v. JSON_parse E s = Some v \<longrightarrow> acquire E (JStr s) = ([], Inr v))
   \<and> (\<forall>s. JSON_parse E s = None \<and> isUrl E s \<longrightarrow>
         acquire E (JStr s) = ([Call_fetchUrlSchemaFile s], fetchUrlSchemaFile E s))
   \<and> (\<forall>s b. JSON_parse E s = None \<and> \<not> isUrl E s \<and> pathExists E s = Inr b \<longrightarrow>
         acquire E (JStr s) =
           ([Call_pathExists s, Call_readSchemaFromFile s], readSchemaFromFile E s))
   \<and> parseOpenRPCDocument E JUndefined = parseOpenRPCDocument E (JStr ''./openrpc.json'')
   \<and> (\<exists>rest. fst (parseOpenRPCDocument E schema) =
         fst (acquire E (if schema = JUndefined then JStr ''./openrpc.json'' else schema)) @ rest)
   \<and> (\<forall>c e. acquire E (if schema = JUndefined then JStr ''./openrpc.json'' else schema) = (c, Inl e)
         \<longrightarrow> parseOpenRPCDocument E schema = (c, Inl e))"
proof -
  have 1: "(\<forall>s. schema \<noteq> JStr s) \<longrightarrow> acquire E schema = ([], Inr schema)"
    by (cases schema) (simp_all add: acquire_def)
  have 2: "\<forall>s v. JSON_parse E s = Some v \<longrightarrow> acquire E (JStr s) = ([], Inr v)"
    by (simp add: acquire_def isJson_def)
  have 3: "\<forall>s. JSON_parse E s = None \<and> isUrl E s \<longrightarrow>
         acquire E (JStr s) = ([Call_fetchUrlSchemaFile s], fetchUrlSchemaFile E s)"
    by (simp add: acquire_def isJson_def)
  have 4: "\<forall>s b. JSON_parse E s = None \<and> \<not> isUrl E s \<and> pathExists E s = Inr b \<longrightarrow>
         acquire E (JStr s) =
           ([Call_pathExists s, Call_readSchemaFromFile s], readSchemaFromFile E s)"
    by (simp add: acquire_def isJson_def)
  have 5: "parseOpenRPCDocument E JUndefined = parseOpenRPCDocument E (JStr ''./openrpc.json'')"
    by (simp add: parseOpenRPCDocument_def)
  have 6: "\<exists>rest. fst (parseOpenRPCDocument E schema) =
         fst (acquire E (if schema = JUndefined then JStr ''./openrpc.json'' else schema)) @ rest"
    by (auto simp: parseOpenRPCDocument_def Let_def
        split: prod.splits sum.splits validation_result.splits)
  have 7: "\<forall>c e. acquire E (if schema = JUndefined then JStr ''./openrpc.json'' else schema) = (c, Inl e)
         \<longrightarrow> parseOpenRPCDocument E schema = (c, Inl e)"
    by (simp add: parseOpenRPCDocument_def)
  from 1 2 3 4 5 6 7 show ?thesis by blast
qed

theorem acquisition_precedence_witness:
  "acquire example_env example_document = ([], Inr example_document)
   \<and> acquire example_env (JStr ''{}'') = ([], Inr (JObj []))
   \<and> acquire example_env (JStr ''http://localhost/openrpc.json'') =
       ([Call_fetchUrlSchemaFile ''http://localhost/openrpc.json''], Inr (JObj [(''info'', JObj [])]))
   \<and> acquire example_env (JStr ''./openrpc.json'') =
       ([Call_pathExists ''./openrpc.json'', Call_readSchemaFromFile ''./openrpc.json''],
        Inr (JObj [(''info'', JObj [])]))
   \<and> parseOpenRPCDocument example_env JUndefined =
       parseOpenRPCDocument example_env (JStr ''./openrpc.json'')"
proof -
  note T = acquisition_precedence [of example_document example_env]
  have 1: "\<forall>s. example_document \<noteq> JStr s" by (simp add: example_document_def)
  have 2: "JSON_parse example_env ''{}'' = Some (JObj [])" by (simp add: example_env_def)
  have 3: "JSON_parse example_env ''http://localhost/openrpc.json'' = None
           \<and> isUrl example_env ''http://localhost/openrpc.json''"
    by (simp add: example_env_def)
  have 4: "JSON_parse example_env ''./openrpc.json'' = None
           \<and> \<not> isUrl example_env ''./openrpc.json''
           \<and> pathExists example_env ''./openrpc.json'' = Inr True"
    by (simp add: example_env_def)
  have f: "fetchUrlSchemaFile example_env ''http://localhost/openrpc.json''
             = Inr (JObj [(''info'', JObj [])])"
    by (simp add: example_env_def)
  have r: "readSchemaFromFile example_env ''./openrpc.json'' = Inr (JObj [(''info'', JObj [])])"
    by (simp add: example_env_def)
  have c1: "acquire example_env example_document = ([], Inr example_document)"
    using T [THEN conjunct1] 1 by (rule mp)
  have c2: "acquire example_env (JStr ''{}'') = ([], Inr (JObj []))"
    using T [THEN conjunct2, THEN conjunct1, rule_format, OF 2] .
  have c3: "acquire example_env (JStr ''http://localhost/openrpc.json'') =
       ([Call_fetchUrlSchemaFile ''http://localhost/openrpc.json''], Inr (JObj [(''info'', JObj [])]))"
    using T [THEN conjunct2, THEN conjunct2, THEN conjunct1, rule_format, OF 3] f by simp
  have c4: "acquire example_env (JStr ''./openrpc.json'') =
       ([Call_pathExists ''./openrpc.json'', Call_readSchemaFromFile ''./openrpc.json''],
        Inr (JObj [(''info'', JObj [])]))"
    using T [THEN conjunct2, THEN conjunct2, THEN conjunct2, THEN conjunct1, rule_format, OF 4] r
    by simp
  have c5: "parseOpenRPCDocument example_env JUndefined =
       parseOpenRPCDocument example_env (JStr ''./openrpc.json'')"
    using T [THEN conjunct2, THEN conjunct2, THEN conjunct2, THEN conjunct2, THEN conjunct1] .
  from c1 c2 c3 c4 c5 show ?thesis by (intro conjI)
qed

end
